theory Spec2Isabelle
  imports Main "HOL-Library.Word" "HOL-Library.Sublist" "HOL-Library.Signed_Division"
begin

unbundle bit_operations_syntax

section \<open>Lock methods and their configuration (mbox-lock.c)\<close>

text \<open>
  The four lock methods, in the order of \<^verbatim>\<open>enum mbox_lock_type\<close>; the ordinal of each
  is its index into \<^verbatim>\<open>lock_status[]\<close> and \<^verbatim>\<open>lock_data[]\<close>.
\<close>

datatype mbox_lock_type =
  MBOX_LOCK_DOTLOCK | MBOX_LOCK_FCNTL | MBOX_LOCK_FLOCK | MBOX_LOCK_LOCKF

definition MBOX_LOCK_COUNT :: nat where
  "MBOX_LOCK_COUNT = 4"

fun lock_ordinal :: "mbox_lock_type \<Rightarrow> nat" where
  "lock_ordinal MBOX_LOCK_DOTLOCK = 0"
| "lock_ordinal MBOX_LOCK_FCNTL = 1"
| "lock_ordinal MBOX_LOCK_FLOCK = 2"
| "lock_ordinal MBOX_LOCK_LOCKF = 3"

text \<open>The \<^verbatim>\<open>int lock_type\<close> argument: only the three fcntl lock kinds are ever passed.\<close>

datatype lock_kind = F_RDLCK | F_WRLCK | F_UNLCK

text \<open>
  The table \<^verbatim>\<open>lock_data[]\<close>: the name of each method, and whether its function pointer
  is non-NULL. \<^verbatim>\<open>mbox_lock_flock\<close> and \<^verbatim>\<open>mbox_lock_lockf\<close> are NULL unless the build
  defines HAVE_FLOCK and HAVE_LOCKF; the two macros are the build parameters.
\<close>

record build_config =
  HAVE_FLOCK :: bool
  HAVE_LOCKF :: bool

definition lock_data :: "(mbox_lock_type \<times> string) list" where
  "lock_data =
     [(MBOX_LOCK_DOTLOCK, ''dotlock''), (MBOX_LOCK_FCNTL, ''fcntl''),
      (MBOX_LOCK_FLOCK, ''flock''), (MBOX_LOCK_LOCKF, ''lockf'')]"

fun func_compiled :: "build_config \<Rightarrow> mbox_lock_type \<Rightarrow> bool" where
  "func_compiled b MBOX_LOCK_DOTLOCK = True"
| "func_compiled b MBOX_LOCK_FCNTL = True"
| "func_compiled b MBOX_LOCK_FLOCK = HAVE_FLOCK b"
| "func_compiled b MBOX_LOCK_LOCKF = HAVE_LOCKF b"

text \<open>\<^verbatim>\<open>strcasecmp(a, b) == 0\<close>: equality of the two strings up to the case of ASCII letters.\<close>

definition ascii_tolower :: "char \<Rightarrow> char" where
  "ascii_tolower c =
     (let n = (of_char c :: nat) in if 65 \<le> n \<and> n \<le> 90 then char_of (n + 32) else c)"

definition strcasecmp_eq :: "string \<Rightarrow> string \<Rightarrow> bool" where
  "strcasecmp_eq a b = (map ascii_tolower a = map ascii_tolower b)"

text \<open>
  The inner loop of \<^verbatim>\<open>mbox_read_lock_methods\<close>: the first entry of the table whose name
  matches; \<open>None\<close> when the loop reaches the NULL entry that ends the table.
\<close>

fun find_lock_data :: "(mbox_lock_type \<times> string) list \<Rightarrow> string \<Rightarrow> mbox_lock_type option" where
  "find_lock_data [] lock = None"
| "find_lock_data ((ty, name) # rest) lock =
     (if strcasecmp_eq lock name then Some ty else find_lock_data rest lock)"

text \<open>Every \<^verbatim>\<open>i_fatal\<close> of the configuration code ends the process; it is a value here.\<close>

datatype fatal =
    Invalid_value string string
  | Not_compiled string string
  | Duplicated_value string string
  | Invalid_lock_lists

text \<open>
  \<^verbatim>\<open>mbox_read_lock_methods(str, env, locks)\<close>. The words of \<^verbatim>\<open>str\<close> are taken as already
  split (\<^verbatim>\<open>t_strsplit\<close> is a library function outside this file). \<open>locks\<close> is the part
  of the output array filled so far (\<^verbatim>\<open>locks[0..dest-1]\<close>); the terminating
  \<^verbatim>\<open>(enum mbox_lock_type)-1\<close> is the end of the list.
\<close>

fun mbox_read_lock_methods_loop ::
  "build_config \<Rightarrow> string \<Rightarrow> string list \<Rightarrow> mbox_lock_type list \<Rightarrow> fatal + mbox_lock_type list"
where
  "mbox_read_lock_methods_loop b env [] locks = Inr locks"
| "mbox_read_lock_methods_loop b env (lock # rest) locks =
     (case find_lock_data lock_data lock of
        None \<Rightarrow> Inl (Invalid_value env lock)
      | Some ty \<Rightarrow>
          if \<not> func_compiled b ty then Inl (Not_compiled env lock)
          else if ty \<in> set locks then Inl (Duplicated_value env lock)
          else mbox_read_lock_methods_loop b env rest (locks @ [ty]))"

definition mbox_read_lock_methods ::
  "build_config \<Rightarrow> string list \<Rightarrow> string \<Rightarrow> fatal + mbox_lock_type list" where
  "mbox_read_lock_methods b strs env = mbox_read_lock_methods_loop b env strs []"

text \<open>
  The order check of \<^verbatim>\<open>mbox_init_lock_settings\<close>: the loop over \<^verbatim>\<open>write_locks[w]\<close> that
  advances \<^verbatim>\<open>r\<close> on every match and breaks when the read list is used up. The result is
  the part of the read list from \<^verbatim>\<open>r\<close> on when the loop ends; the settings are refused
  unless it is empty (\<^verbatim>\<open>read_locks[r] == -1\<close>).
\<close>

fun order_check_loop :: "mbox_lock_type list \<Rightarrow> mbox_lock_type list \<Rightarrow> mbox_lock_type list" where
  "order_check_loop rs [] = rs"
| "order_check_loop [] (w # ws) = []"
| "order_check_loop (r # rs) (w # ws) =
     (if r = w then order_check_loop rs ws else order_check_loop (r # rs) ws)"

text \<open>The static variables that \<^verbatim>\<open>mbox_init_lock_settings\<close> fills.\<close>

record lock_settings =
  read_locks :: "mbox_lock_type list"
  write_locks :: "mbox_lock_type list"
  lock_timeout :: int
  dotlock_change_timeout :: int

text \<open>
  What \<^verbatim>\<open>mbox_init_lock_settings\<close> reads from the process environment: each of the two
  lock lists as \<^verbatim>\<open>getenv\<close> and \<^verbatim>\<open>t_strsplit\<close> give it (\<open>None\<close> when the variable is
  unset), and the two timeouts after \<^verbatim>\<open>atoi\<close>.
\<close>

record environment =
  MBOX_READ_LOCKS :: "string list option"
  MBOX_WRITE_LOCKS :: "string list option"
  MBOX_LOCK_TIMEOUT :: "int option"
  MBOX_DOTLOCK_CHANGE_TIMEOUT :: "int option"

definition DEFAULT_READ_LOCK_METHODS :: "string list" where
  "DEFAULT_READ_LOCK_METHODS = [''fcntl'']"

definition DEFAULT_WRITE_LOCK_METHODS :: "string list" where
  "DEFAULT_WRITE_LOCK_METHODS = [''dotlock'', ''fcntl'']"

definition DEFAULT_LOCK_TIMEOUT :: int where
  "DEFAULT_LOCK_TIMEOUT = 10 * 60"

definition DEFAULT_DOTLOCK_CHANGE_TIMEOUT :: int where
  "DEFAULT_DOTLOCK_CHANGE_TIMEOUT = 5 * 60"

text \<open>
  What a successful parse of one list means: every word names a method of the table, each
  named method is compiled in, and no method is named twice.
\<close>

definition valid_methods :: "build_config \<Rightarrow> string list \<Rightarrow> mbox_lock_type list \<Rightarrow> bool" where
  "valid_methods b strs ls \<longleftrightarrow>
     map (find_lock_data lock_data) strs = map Some ls \<and>
     list_all (func_compiled b) ls \<and> distinct ls"

text \<open>\<^verbatim>\<open>str = getenv(...); if (str == NULL) str = DEFAULT_...\<close>, for each of the two lists.\<close>

definition read_lock_words :: "environment \<Rightarrow> string list" where
  "read_lock_words e =
     (case MBOX_READ_LOCKS e of None \<Rightarrow> DEFAULT_READ_LOCK_METHODS | Some s \<Rightarrow> s)"

definition write_lock_words :: "environment \<Rightarrow> string list" where
  "write_lock_words e =
     (case MBOX_WRITE_LOCKS e of None \<Rightarrow> DEFAULT_WRITE_LOCK_METHODS | Some s \<Rightarrow> s)"

definition mbox_init_lock_settings :: "build_config \<Rightarrow> environment \<Rightarrow> fatal + lock_settings" where
  "mbox_init_lock_settings b e =
     (case mbox_read_lock_methods b (read_lock_words e) ''MBOX_READ_LOCKS'' of
        Inl f \<Rightarrow> Inl f
      | Inr rl \<Rightarrow>
         (case mbox_read_lock_methods b (write_lock_words e) ''MBOX_WRITE_LOCKS'' of
            Inl f \<Rightarrow> Inl f
          | Inr wl \<Rightarrow>
             if order_check_loop rl wl \<noteq> [] then Inl Invalid_lock_lists
             else Inr \<lparr> read_locks = rl, write_locks = wl,
                        lock_timeout =
                          (case MBOX_LOCK_TIMEOUT e of None \<Rightarrow> DEFAULT_LOCK_TIMEOUT | Some t \<Rightarrow> t),
                        dotlock_change_timeout =
                          (case MBOX_DOTLOCK_CHANGE_TIMEOUT e of
                             None \<Rightarrow> DEFAULT_DOTLOCK_CHANGE_TIMEOUT | Some t \<Rightarrow> t) \<rparr>))"

section \<open>The lock session and the mailbox handle\<close>

type_synonym time_t = int

text \<open>
  \<^verbatim>\<open>struct mbox_lock_context\<close>. \<^verbatim>\<open>lock_status[]\<close> only ever holds 0 or 1 and is indexed
  by the lock method. The \<^verbatim>\<open>ibox\<close> pointer is the handle of the state below.
\<close>

record mbox_lock_context =
  lock_status :: "mbox_lock_type \<Rightarrow> bool"
  checked_file :: bool
  lock_type :: lock_kind
  dotlock_last_stale :: int

text \<open>
  \<^verbatim>\<open>memset(&ctx, 0, sizeof(ctx))\<close>. The zero of \<^verbatim>\<open>lock_type\<close> is never read:
  \<^verbatim>\<open>mbox_lock_list\<close> assigns the field before any backend runs.
\<close>

definition zero_ctx :: mbox_lock_context where
  "zero_ctx = \<lparr> lock_status = (\<lambda>_. False), checked_file = False,
                lock_type = F_RDLCK, dotlock_last_stale = 0 \<rparr>"

text \<open>
  The lock fields of \<^verbatim>\<open>struct index_mailbox\<close>. The struct is declared in
  mbox-storage.h, outside this file; the three counters are unsigned ints.
\<close>

record index_mailbox =
  mbox_lock_type :: lock_kind
  mbox_lock_id :: "32 word"
  mbox_shared_locks :: "32 word"
  mbox_excl_locks :: "32 word"

text \<open>
  One entry of the log of backend invocations: the method, the requested kind, the
  \<^verbatim>\<open>max_wait_time\<close> passed, and the value the backend returned. The log is not a variable
  of the program; it records, in order, every call through \<^verbatim>\<open>lock_data[type].func\<close> that
  \<^verbatim>\<open>mbox_lock_list\<close> makes.
\<close>

datatype call = Call (call_type: mbox_lock_type) (call_kind: lock_kind)
  (call_wait: time_t) (call_ret: int)

text \<open>
  The state the functions of the file work on: the handle, the lock context of the
  pass in progress, the error last given to \<^verbatim>\<open>mail_storage_set_error\<close> or
  \<^verbatim>\<open>mbox_set_syscall_error\<close>, everything else (the descriptor, the dotlock, the
  file system, the clock) as \<open>os\<close>, and the log of backend invocations.
\<close>

record 'w mailbox =
  ibox :: index_mailbox
  ctx :: mbox_lock_context
  storage_error :: "string option"
  os :: 'w
  calls :: "call list"

datatype lock_notify = MAILBOX_LOCK_NOTIFY_MAILBOX_OVERRIDE | MAILBOX_LOCK_NOTIFY_MAILBOX_ABORT

text \<open>
  What the file calls and does not define. \<open>func\<close> is the dispatch through
  \<^verbatim>\<open>lock_data[type].func(ctx, lock_type, max_wait_time)\<close>: a backend reads the handle, and
  may change the lock context (the dotlock backend does, through its callback), the
  error and the rest of the world, and returns 1, 0 or -1.
\<close>

record 'w collaborators =
  func :: "mbox_lock_type \<Rightarrow> index_mailbox \<Rightarrow> lock_kind \<Rightarrow> time_t \<Rightarrow>
           mbox_lock_context \<times> string option \<times> 'w \<Rightarrow> int \<times> mbox_lock_context \<times> string option \<times> 'w"
  time_now :: "'w \<Rightarrow> time_t"
  index_storage_lock_notify_reset :: "'w \<Rightarrow> 'w"
  index_storage_lock_notify :: "lock_notify \<Rightarrow> int \<Rightarrow> 'w \<Rightarrow> 'w"
  mbox_file_close_stream :: "'w \<Rightarrow> 'w"

text \<open>An assertion that fails (\<^verbatim>\<open>i_assert\<close>) and a read past the end of a lock list.\<close>

datatype failure = Assertion_failed | Out_of_bounds

definition set_lock_status :: "mbox_lock_type \<Rightarrow> bool \<Rightarrow> 'w mailbox \<Rightarrow> 'w mailbox" where
  "set_lock_status ty v s = s\<lparr>ctx := (ctx s)\<lparr>lock_status := (lock_status (ctx s))(ty := v)\<rparr>\<rparr>"

text \<open>\<^verbatim>\<open>ret = lock_data[type].func(ctx, lock_type, max_wait_time)\<close>, logged.\<close>

definition invoke ::
  "'w collaborators \<Rightarrow> mbox_lock_type \<Rightarrow> lock_kind \<Rightarrow> time_t \<Rightarrow> 'w mailbox \<Rightarrow> int \<times> 'w mailbox"
where
  "invoke cl ty lt max_wait_time s =
     (case func cl ty (ibox s) lt max_wait_time (ctx s, storage_error s, os s) of
        (ret, c, e, w) \<Rightarrow>
          (ret, s\<lparr>ctx := c, storage_error := e, os := w,
                  calls := calls s @ [Call ty lt max_wait_time ret]\<rparr>))"

section \<open>The orchestrator: mbox_lock_list\<close>

text \<open>
  The loop of \<^verbatim>\<open>mbox_lock_list\<close>, from index \<open>i\<close> with the current \<^verbatim>\<open>ret\<close>. The list
  stands for the array up to its \<^verbatim>\<open>-1\<close> terminator, so the loop test
  \<^verbatim>\<open>lock_types[i] != -1\<close> is \<open>i < length lock_types\<close> for every \<open>i\<close> up to the terminator.
\<close>

function mbox_lock_list_loop ::
  "'w collaborators \<Rightarrow> mbox_lock_type list \<Rightarrow> lock_kind \<Rightarrow> time_t \<Rightarrow> nat \<Rightarrow> int \<Rightarrow> 'w mailbox
     \<Rightarrow> int \<times> 'w mailbox"
where
  "mbox_lock_list_loop cl lock_types lt max_wait_time i ret s =
     (if i < length lock_types then
        (if lock_status (ctx s) (lock_types ! i) = (lt \<noteq> F_UNLCK)
         then mbox_lock_list_loop cl lock_types lt max_wait_time (i + 1) ret s
         else
           (case invoke cl (lock_types ! i) lt max_wait_time
                   (set_lock_status (lock_types ! i) (lt \<noteq> F_UNLCK) s) of
              (ret', s') \<Rightarrow>
                if ret' \<le> 0 then (ret', s')
                else mbox_lock_list_loop cl lock_types lt max_wait_time (i + 1) ret' s'))
      else (ret, s))"
  by pat_completeness auto
termination
  by (relation "measure (\<lambda>(cl, lock_types, lt, mw, i, ret, s). length lock_types - i)") auto

text \<open>
  The list \<^verbatim>\<open>mbox_lock_list\<close> walks: the write list for an exclusive request, and for a
  release when the handle's lock type is exclusive; the read list otherwise.
\<close>

definition select_lock_types :: "lock_settings \<Rightarrow> lock_kind \<Rightarrow> index_mailbox \<Rightarrow> mbox_lock_type list" where
  "select_lock_types cfg lt ib =
     (if lt = F_WRLCK \<or> (lt = F_UNLCK \<and> mbox_lock_type ib = F_WRLCK)
      then write_locks cfg else read_locks cfg)"

text \<open>
  \<^verbatim>\<open>mbox_lock_list(ctx, lock_type, max_wait_time, idx)\<close>. An \<open>idx\<close> beyond the terminator
  makes the loop read the array past its end: the slots after the terminator hold no
  \<^verbatim>\<open>-1\<close>, so the loop runs off the array.
\<close>

definition mbox_lock_list ::
  "'w collaborators \<Rightarrow> lock_settings \<Rightarrow> lock_kind \<Rightarrow> time_t \<Rightarrow> nat \<Rightarrow> 'w mailbox
     \<Rightarrow> failure + int \<times> 'w mailbox"
where
  "mbox_lock_list cl cfg lt max_wait_time idx s =
     (let s1 = s\<lparr>ctx := (ctx s)\<lparr>lock_type := lt\<rparr>\<rparr>;
          lock_types = select_lock_types cfg lt (ibox s1)
      in if idx \<le> length lock_types
         then Inr (mbox_lock_list_loop cl lock_types lt max_wait_time idx 0 s1)
         else Inl Out_of_bounds)"

section \<open>Full release, acquisition and demotion\<close>

definition mbox_unlock_files ::
  "'w collaborators \<Rightarrow> lock_settings \<Rightarrow> 'w mailbox \<Rightarrow> failure + int \<times> 'w mailbox" where
  "mbox_unlock_files cl cfg s =
     (case mbox_lock_list cl cfg F_UNLCK 0 0 s of
        Inl f \<Rightarrow> Inl f
      | Inr (r, s1) \<Rightarrow>
          Inr (if r < 0 then - 1 else 0,
               s1\<lparr>os := mbox_file_close_stream cl (os s1),
                   ibox := (ibox s1)\<lparr>mbox_lock_id := mbox_lock_id (ibox s1) + 2,
                                      mbox_lock_type := F_UNLCK\<rparr>\<rparr>))"

text \<open>
  The two loops that fill \<^verbatim>\<open>ctx.lock_status\<close> in \<^verbatim>\<open>mbox_update_locking\<close>: entries set
  to 1 for a list, entries set to 0 for a list.
\<close>

definition mark_locks :: "bool \<Rightarrow> mbox_lock_type list \<Rightarrow> (mbox_lock_type \<Rightarrow> bool) \<Rightarrow> (mbox_lock_type \<Rightarrow> bool)" where
  "mark_locks v ls st = fold (\<lambda>ty f. f(ty := v)) ls st"

definition timeout_error :: string where
  "timeout_error = ''Timeout while waiting for lock''"

text \<open>
  \<^verbatim>\<open>mbox_update_locking(ibox, lock_type)\<close>. \<open>cfg\<close> is the value of the static settings:
  the function initialises them on first use, and a fatal error there ends the process.
\<close>

definition mbox_update_locking ::
  "'w collaborators \<Rightarrow> lock_settings \<Rightarrow> lock_kind \<Rightarrow> 'w mailbox \<Rightarrow> failure + int \<times> 'w mailbox" where
  "mbox_update_locking cl cfg lt s =
     (let s0 = s\<lparr>os := index_storage_lock_notify_reset cl (os s)\<rparr>;
          max_wait_time = time_now cl (os s0) + lock_timeout cfg;
          drop_locks = (mbox_lock_type (ibox s0) = F_WRLCK);
          c = (if drop_locks
               then zero_ctx\<lparr>lock_status := mark_locks False (read_locks cfg) (\<lambda>_. True)\<rparr>
               else zero_ctx);
          s1 = s0\<lparr>ctx := c, ibox := (ibox s0)\<lparr>mbox_lock_type := lt\<rparr>\<rparr>
      in case mbox_lock_list cl cfg lt max_wait_time 0 s1 of
           Inl f \<Rightarrow> Inl f
         | Inr (ret, s2) \<Rightarrow>
             if ret \<le> 0 then
               (case (if \<not> drop_locks then mbox_unlock_files cl cfg s2 else Inr (0, s2)) of
                  Inl f \<Rightarrow> Inl f
                | Inr (_, s3) \<Rightarrow>
                    Inr (ret, if ret = 0 then s3\<lparr>storage_error := Some timeout_error\<rparr> else s3))
             else if drop_locks then
               (let s3 = s2\<lparr>ctx := (ctx s2)\<lparr>lock_status :=
                                  mark_locks False (read_locks cfg)
                                    (mark_locks True (write_locks cfg) (\<lambda>_. False))\<rparr>,
                             ibox := (ibox s2)\<lparr>mbox_lock_type := F_WRLCK\<rparr>\<rparr>
                in case mbox_lock_list cl cfg F_UNLCK 0 0 s3 of
                     Inl f \<Rightarrow> Inl f
                   | Inr (_, s4) \<Rightarrow> Inr (1, s4\<lparr>ibox := (ibox s4)\<lparr>mbox_lock_type := F_RDLCK\<rparr>\<rparr>))
             else Inr (1, s2))"

section \<open>The public operations: mbox_lock and mbox_unlock\<close>

text \<open>
  \<^verbatim>\<open>mbox_lock(ibox, lock_type, lock_id_r)\<close>: the returned value, what was stored through
  \<^verbatim>\<open>lock_id_r\<close> (nothing on the early return), and the new state.
\<close>

definition mbox_lock ::
  "'w collaborators \<Rightarrow> lock_settings \<Rightarrow> lock_kind \<Rightarrow> 'w mailbox
     \<Rightarrow> failure + int \<times> 32 word option \<times> 'w mailbox" where
  "mbox_lock cl cfg lt s =
     (if \<not> (lt = F_RDLCK \<or> lt = F_WRLCK) then Inl Assertion_failed
      else if \<not> (lt = F_RDLCK \<or> mbox_lock_type (ibox s) \<noteq> F_RDLCK) then Inl Assertion_failed
      else
        (case (if mbox_lock_type (ibox s) = F_UNLCK
               then (case mbox_update_locking cl cfg lt s of
                       Inl f \<Rightarrow> Inl f
                     | Inr (ret, s1) \<Rightarrow>
                         if ret \<le> 0 then Inr (ret, s1)
                         else Inr (ret, s1\<lparr>ibox := (ibox s1)\<lparr>mbox_lock_id :=
                                                     mbox_lock_id (ibox s1) + 2\<rparr>\<rparr>))
               else Inr (1, s)) of
           Inl f \<Rightarrow> Inl f
         | Inr (ret, s2) \<Rightarrow>
             if ret \<le> 0 then Inr (ret, None, s2)
             else if lt = F_RDLCK then
               Inr (1, Some (mbox_lock_id (ibox s2)),
                    s2\<lparr>ibox := (ibox s2)\<lparr>mbox_shared_locks := mbox_shared_locks (ibox s2) + 1\<rparr>\<rparr>)
             else
               Inr (1, Some (mbox_lock_id (ibox s2) + 1),
                    s2\<lparr>ibox := (ibox s2)\<lparr>mbox_excl_locks := mbox_excl_locks (ibox s2) + 1\<rparr>\<rparr>)))"

text \<open>The end of \<^verbatim>\<open>mbox_unlock\<close>, after the comment "all locks gone".\<close>

definition all_locks_gone ::
  "'w collaborators \<Rightarrow> lock_settings \<Rightarrow> 'w mailbox \<Rightarrow> failure + int \<times> 'w mailbox" where
  "all_locks_gone cl cfg s =
     mbox_unlock_files cl cfg (s\<lparr>ctx := zero_ctx\<lparr>lock_status := (\<lambda>_. True)\<rparr>\<rparr>)"

definition mbox_unlock ::
  "'w collaborators \<Rightarrow> lock_settings \<Rightarrow> 32 word \<Rightarrow> 'w mailbox \<Rightarrow> failure + int \<times> 'w mailbox" where
  "mbox_unlock cl cfg lock_id s =
     (if mbox_lock_id (ibox s) \<noteq> (lock_id AND NOT 1) then Inl Assertion_failed
      else if lock_id AND 1 \<noteq> 0 then
        (if \<not> 0 < mbox_excl_locks (ibox s) then Inl Assertion_failed
         else
           (let s1 = s\<lparr>ibox := (ibox s)\<lparr>mbox_excl_locks := mbox_excl_locks (ibox s) - 1\<rparr>\<rparr>
            in if 0 < mbox_excl_locks (ibox s1) then Inr (0, s1)
               else if 0 < mbox_shared_locks (ibox s1) then
                 (case mbox_update_locking cl cfg F_RDLCK s1 of
                    Inl f \<Rightarrow> Inl f
                  | Inr (r, s2) \<Rightarrow> Inr (if r < 0 then - 1 else 0, s2))
               else all_locks_gone cl cfg s1))
      else
        (if \<not> 0 < mbox_shared_locks (ibox s) then Inl Assertion_failed
         else
           (let s1 = s\<lparr>ibox := (ibox s)\<lparr>mbox_shared_locks := mbox_shared_locks (ibox s) - 1\<rparr>\<rparr>
            in if 0 < mbox_shared_locks (ibox s1) then Inr (0, s1)
               else if 0 < mbox_excl_locks (ibox s1) then Inr (0, s1)
               else all_locks_gone cl cfg s1)))"

section \<open>The dotlock callback\<close>

definition lock_types_by_ordinal :: "mbox_lock_type list" where
  "lock_types_by_ordinal = [MBOX_LOCK_DOTLOCK, MBOX_LOCK_FCNTL, MBOX_LOCK_FLOCK, MBOX_LOCK_LOCKF]"

text \<open>
  The loop \<^verbatim>\<open>for (idx = MBOX_LOCK_COUNT; idx > 0; idx--) if (ctx->lock_status[idx-1]) break;\<close>
  started at \<open>idx = n\<close>: one more than the highest ordinal whose status is set, or 0.
\<close>

fun next_lock_index :: "(mbox_lock_type \<Rightarrow> bool) \<Rightarrow> nat \<Rightarrow> nat" where
  "next_lock_index st 0 = 0"
| "next_lock_index st (Suc n) =
     (if st (lock_types_by_ordinal ! n) then Suc n else next_lock_index st n)"

text \<open>The last three statements of \<^verbatim>\<open>dotlock_callback\<close>.\<close>

definition dotlock_callback_notify ::
  "'w collaborators \<Rightarrow> int \<Rightarrow> bool \<Rightarrow> 'w mailbox \<Rightarrow> bool \<times> 'w mailbox" where
  "dotlock_callback_notify cl secs_left stale s =
     (True,
      s\<lparr>ctx := (ctx s)\<lparr>dotlock_last_stale := (if stale then 1 else 0)\<rparr>,
        os := index_storage_lock_notify cl
                (if stale then MAILBOX_LOCK_NOTIFY_MAILBOX_OVERRIDE
                 else MAILBOX_LOCK_NOTIFY_MAILBOX_ABORT) secs_left (os s)\<rparr>)"

text \<open>
  \<^verbatim>\<open>dotlock_callback(secs_left, stale, context)\<close>: FALSE tells the dotlock code not to
  override the lock file, TRUE lets it go on.
\<close>

definition dotlock_callback ::
  "'w collaborators \<Rightarrow> lock_settings \<Rightarrow> int \<Rightarrow> bool \<Rightarrow> 'w mailbox \<Rightarrow> failure + bool \<times> 'w mailbox" where
  "dotlock_callback cl cfg secs_left stale s =
     (if stale \<and> dotlock_last_stale (ctx s) = 0 then
        (let idx = next_lock_index (lock_status (ctx s)) MBOX_LOCK_COUNT
         in case mbox_lock_list cl cfg (lock_type (ctx s)) 0 idx s of
              Inl f \<Rightarrow> Inl f
            | Inr (r, s1) \<Rightarrow>
                if r \<le> 0 then Inr (False, s1\<lparr>ctx := (ctx s1)\<lparr>dotlock_last_stale := 1\<rparr>\<rparr>)
                else
                  (case mbox_lock_list cl cfg F_UNLCK 0 idx s1 of
                     Inl f \<Rightarrow> Inl f
                   | Inr (_, s2) \<Rightarrow> Inr (dotlock_callback_notify cl secs_left stale s2)))
      else Inr (dotlock_callback_notify cl secs_left stale s))"

section \<open>The four backends\<close>

text \<open>
  The rest of \<^verbatim>\<open>struct index_mailbox\<close> that the backends use, and the world outside
  the process as \<open>outside\<close>.
\<close>

record 'x mbox_file =
  mbox_fd :: int
  mbox_dotlock_ino :: nat
  outside :: 'x

type_synonym 'x backend_state = "mbox_lock_context \<times> string option \<times> 'x mbox_file"

datatype flock_op = LOCK_SH | LOCK_EX | LOCK_UN
datatype lockf_cmd = F_TLOCK | F_ULOCK
datatype fcntl_cmd = F_SETLK | F_SETLKW

text \<open>
  The system and library calls of the backends. A lock call returns \<open>None\<close> when it
  succeeds and the \<^verbatim>\<open>errno\<close> when it fails; the four \<^verbatim>\<open>errno\<close> constants are those of
  the platform. \<^verbatim>\<open>flock\<close> is always called with \<^verbatim>\<open>LOCK_NB\<close>. \<open>stat_path\<close> is
  \<^verbatim>\<open>stat(ibox->path)\<close> with the comparison of inode and device that follows it: \<open>None\<close>
  when \<^verbatim>\<open>stat\<close> fails, otherwise whether the path still is the open file.
  \<open>file_lock_dotlock\<close> gets the two timeouts and the callback, and may change the lock
  context by calling it.
\<close>

record ('x, 'cb) system =
  EWOULDBLOCK :: int
  EAGAIN :: int
  EACCES :: int
  EINTR :: int
  sys_flock :: "int \<Rightarrow> flock_op \<Rightarrow> 'x \<Rightarrow> int option \<times> 'x"
  sys_lockf :: "int \<Rightarrow> lockf_cmd \<Rightarrow> 'x \<Rightarrow> int option \<times> 'x"
  sys_fcntl :: "int \<Rightarrow> fcntl_cmd \<Rightarrow> lock_kind \<Rightarrow> 'x \<Rightarrow> int option \<times> 'x"
  sys_time :: "'x \<Rightarrow> time_t"
  sys_usleep :: "'x \<Rightarrow> 'x"
  sys_alarm :: "int \<Rightarrow> 'x \<Rightarrow> 'x"
  sys_lock_notify :: "lock_notify \<Rightarrow> int \<Rightarrow> 'x \<Rightarrow> 'x"
  stat_path :: "'x \<Rightarrow> bool option"
  mbox_file_close :: "'x mbox_file \<Rightarrow> 'x mbox_file"
  mbox_file_open :: "string option \<times> 'x mbox_file \<Rightarrow> int \<times> string option \<times> 'x mbox_file"
  file_lock_dotlock :: "int \<Rightarrow> int \<Rightarrow> 'cb \<Rightarrow> 'x backend_state \<Rightarrow> int \<times> 'x backend_state"
  file_unlock_dotlock :: "'x \<Rightarrow> int \<times> 'x"

text \<open>\<^verbatim>\<open>mbox_set_syscall_error(ibox, name)\<close>: the error names the failed call.\<close>

definition mbox_set_syscall_error :: "string \<Rightarrow> 'x backend_state \<Rightarrow> 'x backend_state" where
  "mbox_set_syscall_error name b = (case b of (c, e, f) \<Rightarrow> (c, Some name, f))"

definition set_outside :: "'x \<Rightarrow> 'x backend_state \<Rightarrow> 'x backend_state" where
  "set_outside x b = (case b of (c, e, f) \<Rightarrow> (c, e, f\<lparr>outside := x\<rparr>))"

definition mbox_file_open_latest ::
  "('x, 'cb) system \<Rightarrow> lock_kind \<Rightarrow> 'x backend_state \<Rightarrow> int \<times> 'x backend_state" where
  "mbox_file_open_latest sy lt b =
     (case b of (c, e, f) \<Rightarrow>
        if checked_file c \<or> lt = F_UNLCK then (0, b)
        else
          (case (if mbox_fd f \<noteq> - 1
                 then (case stat_path sy (outside f) of
                         None \<Rightarrow> Inl (mbox_set_syscall_error ''stat()'' b)
                       | Some same \<Rightarrow> Inr (if same then f else mbox_file_close sy f))
                 else Inr f) of
             Inl b' \<Rightarrow> (- 1, b')
           | Inr f1 \<Rightarrow>
               (case (if mbox_fd f1 = - 1 then mbox_file_open sy (e, f1) else (0, e, f1)) of
                  (r, e2, f2) \<Rightarrow>
                    if r < 0 then (- 1, (c, e2, f2))
                    else (0, (c\<lparr>checked_file := True\<rparr>, e2, f2)))))"

text \<open>
  The \<^verbatim>\<open>while (flock(...) < 0)\<close> loop of \<^verbatim>\<open>mbox_lock_flock\<close>. It ends only when the
  system lets it, so it returns an option. \<^verbatim>\<open>last_notify\<close> stays 0 throughout.
\<close>

partial_function (option) mbox_lock_flock_loop ::
  "('x, 'cb) system \<Rightarrow> flock_op \<Rightarrow> time_t \<Rightarrow> 'x backend_state \<Rightarrow> (int \<times> 'x backend_state) option"
where
  "mbox_lock_flock_loop sy op max_wait_time b =
     (case sys_flock sy (mbox_fd (snd (snd b))) op (outside (snd (snd b))) of
        (None, x1) \<Rightarrow> Some (1, set_outside x1 b)
      | (Some errno, x1) \<Rightarrow>
          if errno \<noteq> EWOULDBLOCK sy
          then Some (- 1, mbox_set_syscall_error ''flock()'' (set_outside x1 b))
          else if max_wait_time = 0 then Some (0, set_outside x1 b)
          else if sys_time sy x1 \<ge> max_wait_time then Some (0, set_outside x1 b)
          else mbox_lock_flock_loop sy op max_wait_time
                 (set_outside
                    (sys_usleep sy
                       (if sys_time sy x1 \<noteq> 0
                        then sys_lock_notify sy MAILBOX_LOCK_NOTIFY_MAILBOX_ABORT
                               (max_wait_time - sys_time sy x1) x1
                        else x1)) b))"

definition mbox_lock_flock ::
  "('x, 'cb) system \<Rightarrow> lock_kind \<Rightarrow> time_t \<Rightarrow> 'x backend_state \<Rightarrow> (int \<times> 'x backend_state) option"
where
  "mbox_lock_flock sy lt max_wait_time b =
     (case mbox_file_open_latest sy lt b of
        (r, b1) \<Rightarrow>
          if r < 0 then Some (- 1, b1)
          else if lt = F_UNLCK \<and> mbox_fd (snd (snd b1)) = - 1 then Some (1, b1)
          else mbox_lock_flock_loop sy
                 (if lt = F_WRLCK then LOCK_EX else if lt = F_RDLCK then LOCK_SH else LOCK_UN)
                 max_wait_time b1)"

text \<open>The \<^verbatim>\<open>while (lockf(...) < 0)\<close> loop of \<^verbatim>\<open>mbox_lock_lockf\<close>.\<close>

partial_function (option) mbox_lock_lockf_loop ::
  "('x, 'cb) system \<Rightarrow> lockf_cmd \<Rightarrow> time_t \<Rightarrow> 'x backend_state \<Rightarrow> (int \<times> 'x backend_state) option"
where
  "mbox_lock_lockf_loop sy cmd max_wait_time b =
     (case sys_lockf sy (mbox_fd (snd (snd b))) cmd (outside (snd (snd b))) of
        (None, x1) \<Rightarrow> Some (1, set_outside x1 b)
      | (Some errno, x1) \<Rightarrow>
          if errno \<noteq> EAGAIN sy
          then Some (- 1, mbox_set_syscall_error ''lockf()'' (set_outside x1 b))
          else if max_wait_time = 0 then Some (0, set_outside x1 b)
          else if sys_time sy x1 \<ge> max_wait_time then Some (0, set_outside x1 b)
          else mbox_lock_lockf_loop sy cmd max_wait_time
                 (set_outside
                    (sys_usleep sy
                       (if sys_time sy x1 \<noteq> 0
                        then sys_lock_notify sy MAILBOX_LOCK_NOTIFY_MAILBOX_ABORT
                               (max_wait_time - sys_time sy x1) x1
                        else x1)) b))"

definition mbox_lock_lockf ::
  "('x, 'cb) system \<Rightarrow> lock_kind \<Rightarrow> time_t \<Rightarrow> 'x backend_state \<Rightarrow> (int \<times> 'x backend_state) option"
where
  "mbox_lock_lockf sy lt max_wait_time b =
     (case mbox_file_open_latest sy lt b of
        (r, b1) \<Rightarrow>
          if r < 0 then Some (- 1, b1)
          else if lt = F_UNLCK \<and> mbox_fd (snd (snd b1)) = - 1 then Some (1, b1)
          else mbox_lock_lockf_loop sy (if lt \<noteq> F_UNLCK then F_TLOCK else F_ULOCK)
                 max_wait_time b1)"

text \<open>
  \<^verbatim>\<open>next_alarm = (max_wait_time - now) % 5\<close>, an unsigned int: the remainder of C
  (truncated towards zero), then taken modulo \<open>2 ^ 32\<close>; 0 is replaced by 5.
\<close>

definition next_alarm :: "time_t \<Rightarrow> time_t \<Rightarrow> int" where
  "next_alarm max_wait_time now =
     (let r = ((max_wait_time - now) smod 5) mod 2 ^ 32 in if r = 0 then 5 else r)"

text \<open>The \<^verbatim>\<open>while (fcntl(...) < 0)\<close> loop of \<^verbatim>\<open>mbox_lock_fcntl\<close>.\<close>

partial_function (option) mbox_lock_fcntl_loop ::
  "('x, 'cb) system \<Rightarrow> fcntl_cmd \<Rightarrow> lock_kind \<Rightarrow> time_t \<Rightarrow> 'x backend_state
     \<Rightarrow> (int \<times> 'x backend_state) option"
where
  "mbox_lock_fcntl_loop sy wait_type lt max_wait_time b =
     (case sys_fcntl sy (mbox_fd (snd (snd b))) wait_type lt (outside (snd (snd b))) of
        (None, x1) \<Rightarrow> Some (1, set_outside (sys_alarm sy 0 x1) b)
      | (Some errno, x1) \<Rightarrow>
          if errno \<noteq> EINTR sy then
            Some (- 1, set_outside (sys_alarm sy 0 x1)
                         (if errno \<noteq> EAGAIN sy \<and> errno \<noteq> EACCES sy
                          then mbox_set_syscall_error ''fcntl()'' b else b))
          else if max_wait_time \<noteq> 0 \<and> sys_time sy x1 \<ge> max_wait_time
          then Some (0, set_outside (sys_alarm sy 0 x1) b)
          else mbox_lock_fcntl_loop sy wait_type lt max_wait_time
                 (set_outside
                    (sys_lock_notify sy MAILBOX_LOCK_NOTIFY_MAILBOX_ABORT
                       (max_wait_time - sys_time sy x1)
                       (sys_alarm sy (next_alarm max_wait_time (sys_time sy x1)) x1)) b))"

definition mbox_lock_fcntl ::
  "('x, 'cb) system \<Rightarrow> lock_kind \<Rightarrow> time_t \<Rightarrow> 'x backend_state \<Rightarrow> (int \<times> 'x backend_state) option"
where
  "mbox_lock_fcntl sy lt max_wait_time b =
     (case mbox_file_open_latest sy lt b of
        (r, b1) \<Rightarrow>
          if r < 0 then Some (- 1, b1)
          else if lt = F_UNLCK \<and> mbox_fd (snd (snd b1)) = - 1 then Some (1, b1)
          else if max_wait_time = 0 then mbox_lock_fcntl_loop sy F_SETLK lt max_wait_time b1
          else mbox_lock_fcntl_loop sy F_SETLKW lt max_wait_time
                 (set_outside
                    (sys_alarm sy (min max_wait_time 5 mod 2 ^ 32) (outside (snd (snd b1)))) b1))"

text \<open>
  \<^verbatim>\<open>mbox_lock_dotlock\<close>. Its \<^verbatim>\<open>max_wait_time\<close> is marked unused: the wait is bounded by
  the configured \<^verbatim>\<open>lock_timeout\<close>. \<open>cb\<close> is the callback handed to \<^verbatim>\<open>file_lock_dotlock\<close>,
  which sets \<^verbatim>\<open>ibox->mbox_dotlock\<close> itself when it succeeds. On a failed unlock the
  function still returns 1.
\<close>

definition mbox_lock_dotlock ::
  "('x, 'cb) system \<Rightarrow> lock_settings \<Rightarrow> 'cb \<Rightarrow> lock_kind \<Rightarrow> time_t \<Rightarrow> 'x backend_state
     \<Rightarrow> int \<times> 'x backend_state"
where
  "mbox_lock_dotlock sy cfg cb lt max_wait_time b =
     (case b of (c, e, f) \<Rightarrow>
        if lt = F_UNLCK then
          (if mbox_dotlock_ino f = 0 then (1, b)
           else
             (case file_unlock_dotlock sy (outside f) of
                (r, x1) \<Rightarrow>
                  (1, (c, if r \<le> 0 then Some ''file_unlock_dotlock()'' else e,
                       f\<lparr>outside := x1, mbox_dotlock_ino := 0\<rparr>))))
        else if mbox_dotlock_ino f \<noteq> 0 then (1, b)
        else
          (case file_lock_dotlock sy (lock_timeout cfg) (dotlock_change_timeout cfg) cb
                  (c\<lparr>dotlock_last_stale := - 1\<rparr>, e, f) of
             (ret, b1) \<Rightarrow>
               if ret < 0 then (- 1, mbox_set_syscall_error ''file_lock_dotlock()'' b1)
               else if ret = 0 then (0, (fst b1, Some timeout_error, snd (snd b1)))
               else
                 (case mbox_file_open_latest sy lt b1 of
                    (r, b2) \<Rightarrow> if r < 0 then (- 1, b2) else (1, b2))))"

section \<open>Notions used to state the properties\<close>

text \<open>
  The orchestrator as the specification words it (section 4.3): for each backend of the
  list in order, skip it when its held-state already is the wanted one, otherwise record
  the new held-state and apply the backend; stop at the first backend that does not
  return success and give its result back.
\<close>

fun spec_walk ::
  "'w collaborators \<Rightarrow> lock_kind \<Rightarrow> time_t \<Rightarrow> mbox_lock_type list \<Rightarrow> int \<Rightarrow> 'w mailbox
     \<Rightarrow> int \<times> 'w mailbox"
where
  "spec_walk cl requested deadline [] res s = (res, s)"
| "spec_walk cl requested deadline (b # order) res s =
     (if lock_status (ctx s) b = (requested \<noteq> F_UNLCK)
      then spec_walk cl requested deadline order res s
      else
        (case invoke cl b requested deadline (set_lock_status b (requested \<noteq> F_UNLCK) s) of
           (r, s') \<Rightarrow> if r \<le> 0 then (r, s') else spec_walk cl requested deadline order r s'))"

definition spec_acquire_or_release ::
  "'w collaborators \<Rightarrow> lock_settings \<Rightarrow> lock_kind \<Rightarrow> time_t \<Rightarrow> nat \<Rightarrow> 'w mailbox \<Rightarrow> int \<times> 'w mailbox"
where
  "spec_acquire_or_release cl cfg requested deadline start_index s =
     spec_walk cl requested deadline
       (drop start_index
          (if requested = F_WRLCK \<or> (requested = F_UNLCK \<and> mbox_lock_type (ibox s) = F_WRLCK)
           then write_locks cfg else read_locks cfg))
       0 (s\<lparr>ctx := (ctx s)\<lparr>lock_type := requested\<rparr>\<rparr>)"

text \<open>The backend invocations logged between two states.\<close>

definition new_calls :: "'w mailbox \<Rightarrow> 'w mailbox \<Rightarrow> call list" where
  "new_calls s s' = drop (length (calls s)) (calls s')"

text \<open>
  Conditions on the backends: a backend leaves the table \<^verbatim>\<open>lock_status[]\<close> of the session
  as it found it (on a release request; on every request), and a release request succeeds.
\<close>

definition release_keeps_status :: "'w collaborators \<Rightarrow> bool" where
  "release_keeps_status cl \<longleftrightarrow>
     (\<forall>ty ib mw c e w. lock_status (fst (snd (func cl ty ib F_UNLCK mw (c, e, w)))) = lock_status c)"

definition keeps_lock_status :: "'w collaborators \<Rightarrow> bool" where
  "keeps_lock_status cl \<longleftrightarrow>
     (\<forall>ty ib lt mw c e w. lock_status (fst (snd (func cl ty ib lt mw (c, e, w)))) = lock_status c)"

definition release_succeeds :: "'w collaborators \<Rightarrow> bool" where
  "release_succeeds cl \<longleftrightarrow> (\<forall>ty ib mw x. 0 < fst (func cl ty ib F_UNLCK mw x))"

text \<open>
  Backends that answer from a table and touch nothing: the result of a request depends on
  the method and the requested kind only. The clock stands still at 1000.
\<close>

definition table_backends :: "(mbox_lock_type \<Rightarrow> lock_kind \<Rightarrow> int) \<Rightarrow> unit collaborators" where
  "table_backends tbl =
     \<lparr> func = (\<lambda>ty ib lt mw x. (tbl ty lt, x)),
       time_now = (\<lambda>w. 1000),
       index_storage_lock_notify_reset = (\<lambda>w. w),
       index_storage_lock_notify = (\<lambda>n secs w. w),
       mbox_file_close_stream = (\<lambda>w. w) \<rparr>"

text \<open>The settings when no environment variable is set.\<close>

definition default_settings :: lock_settings where
  "default_settings =
     \<lparr> read_locks = [MBOX_LOCK_FCNTL], write_locks = [MBOX_LOCK_DOTLOCK, MBOX_LOCK_FCNTL],
       lock_timeout = DEFAULT_LOCK_TIMEOUT, dotlock_change_timeout = DEFAULT_DOTLOCK_CHANGE_TIMEOUT \<rparr>"

text \<open>A fresh handle: nothing locked, no reference, the lock id at \<open>e\<close>.\<close>

definition fresh_mailbox :: "32 word \<Rightarrow> 'w \<Rightarrow> 'w mailbox" where
  "fresh_mailbox e w =
     \<lparr> ibox = \<lparr> mbox_lock_type = F_UNLCK, mbox_lock_id = e,
                mbox_shared_locks = 0, mbox_excl_locks = 0 \<rparr>,
       ctx = zero_ctx, storage_error = None, os = w, calls = [] \<rparr>"

text \<open>
  A system in which another process holds every lock. The world outside is the clock, in
  seconds. The three lock calls fail with \<^verbatim>\<open>EAGAIN\<close> (which is \<^verbatim>\<open>EWOULDBLOCK\<close>, as on Linux);
  \<^verbatim>\<open>file_lock_dotlock\<close> waits for its whole timeout and returns 0; the mailbox file is
  unchanged on disk.
\<close>

definition contended_system :: "(int, unit) system" where
  "contended_system =
     \<lparr> EWOULDBLOCK = 11, EAGAIN = 11, EACCES = 13, EINTR = 4,
       sys_flock = (\<lambda>fd op x. (Some 11, x)),
       sys_lockf = (\<lambda>fd cmd x. (Some 11, x)),
       sys_fcntl = (\<lambda>fd cmd lt x. (Some 11, x)),
       sys_time = (\<lambda>x. x),
       sys_usleep = (\<lambda>x. x),
       sys_alarm = (\<lambda>secs x. x),
       sys_lock_notify = (\<lambda>n secs x. x),
       stat_path = (\<lambda>x. Some True),
       mbox_file_close = (\<lambda>f. f\<lparr>mbox_fd := - 1\<rparr>),
       mbox_file_open = (\<lambda>(e, f). (0, e, f\<lparr>mbox_fd := 3\<rparr>)),
       file_lock_dotlock = (\<lambda>timeout stale_timeout cb (c, e, f).
                              (0, (c, e, f\<lparr>outside := outside f + timeout\<rparr>))),
       file_unlock_dotlock = (\<lambda>x. (1, x)) \<rparr>"

text \<open>A backend state with the mailbox open on descriptor 3, no dotlock, at time 1000.\<close>

definition open_mailbox_state :: "int backend_state" where
  "open_mailbox_state =
     (zero_ctx, None, \<lparr> mbox_fd = 3, mbox_dotlock_ino = 0, outside = 1000 \<rparr>)"

text \<open>
  The state in which \<^verbatim>\<open>file_lock_dotlock\<close> calls back during an exclusive request on a
  fresh handle: the handle's lock type and the context's are \<^verbatim>\<open>F_WRLCK\<close>, the dotlock is the
  only backend marked, and \<^verbatim>\<open>dotlock_last_stale\<close> is \<open>v\<close> (\<open>-1\<close> at the first call).
\<close>

definition dotlock_wait_state :: "int \<Rightarrow> unit mailbox" where
  "dotlock_wait_state v =
     \<lparr> ibox = \<lparr> mbox_lock_type = F_WRLCK, mbox_lock_id = 0,
                mbox_shared_locks = 0, mbox_excl_locks = 0 \<rparr>,
       ctx = \<lparr> lock_status = (\<lambda>ty. ty = MBOX_LOCK_DOTLOCK), checked_file = False,
               lock_type = F_WRLCK, dotlock_last_stale = v \<rparr>,
       storage_error = None, os = (), calls = [] \<rparr>"

text \<open>
  A caller's sequence of operations on one handle; the run stops at the first failed
  assertion or out-of-bounds read.
\<close>

datatype operation = Lock lock_kind | Unlock "32 word"

fun run_ops ::
  "'w collaborators \<Rightarrow> lock_settings \<Rightarrow> operation list \<Rightarrow> 'w mailbox \<Rightarrow> failure + 'w mailbox" where
  "run_ops cl cfg [] s = Inr s"
| "run_ops cl cfg (Lock lt # ops) s =
     (case mbox_lock cl cfg lt s of
        Inl f \<Rightarrow> Inl f
      | Inr (r, tok, s') \<Rightarrow> run_ops cl cfg ops s')"
| "run_ops cl cfg (Unlock lock_id # ops) s =
     (case mbox_unlock cl cfg lock_id s of
        Inl f \<Rightarrow> Inl f
      | Inr (r, s') \<Rightarrow> run_ops cl cfg ops s')"

text \<open>The handle at the shared level with \<open>k\<close> shared references and lock id \<open>e\<close>.\<close>

definition shared_held :: "32 word \<Rightarrow> nat \<Rightarrow> index_mailbox" where
  "shared_held e k =
     \<lparr> mbox_lock_type = F_RDLCK, mbox_lock_id = e,
       mbox_shared_locks = of_nat k, mbox_excl_locks = 0 \<rparr>"

text \<open>
  The invariant of the handle as the specification states it, and the fact that makes it
  inductive: at the shared level there is no exclusive reference.
\<close>

definition handle_invariant :: "index_mailbox \<Rightarrow> bool" where
  "handle_invariant ib \<longleftrightarrow>
     ((mbox_lock_type ib = F_UNLCK) = (mbox_shared_locks ib = 0 \<and> mbox_excl_locks ib = 0)) \<and>
     (mbox_lock_type ib \<noteq> F_WRLCK \<or> 0 < mbox_excl_locks ib)"

definition handle_invariant_strong :: "index_mailbox \<Rightarrow> bool" where
  "handle_invariant_strong ib \<longleftrightarrow>
     handle_invariant ib \<and> (mbox_lock_type ib \<noteq> F_RDLCK \<or> mbox_excl_locks ib = 0)"

section \<open>Validation of the lock lists\<close>

declare mbox_lock_list_loop.simps [simp del]


lemma order_check_loop_Nil [simp]: "order_check_loop [] ws = []"
  by (cases ws) simp_all

lemma order_check_loop_subseq: "order_check_loop rs ws = [] \<longleftrightarrow> subseq rs ws"
proof (induction rs ws rule: order_check_loop.induct)
  case (1 rs)
  show ?case by (cases rs) simp_all
next
  case (2 w ws)
  show ?case by simp
next
  case (3 r rs w ws)
  then show ?case by simp
qed

lemma mbox_read_lock_methods_loop_Inr:
  "mbox_read_lock_methods_loop b env strs locks = Inr ls \<longleftrightarrow>
     (\<exists>ts. ls = locks @ ts \<and> map (find_lock_data lock_data) strs = map Some ts \<and>
           list_all (func_compiled b) ts \<and> distinct ts \<and> set ts \<inter> set locks = {})"
proof (induction strs arbitrary: locks)
  case Nil
  show ?case by auto
next
  case (Cons lock rest)
  show ?case
  proof (cases "find_lock_data lock_data lock")
    case None
    then show ?thesis by (auto simp: map_eq_Cons_conv)
  next
    case (Some ty)
    show ?thesis
    proof (cases "func_compiled b ty \<and> ty \<notin> set locks")
      case False
      with Some show ?thesis by (auto simp: map_eq_Cons_conv)
    next
      case True
      have "mbox_read_lock_methods_loop b env (lock # rest) locks =
              mbox_read_lock_methods_loop b env rest (locks @ [ty])"
        using Some True by simp
      also have "\<dots> = Inr ls \<longleftrightarrow>
          (\<exists>ts. ls = (locks @ [ty]) @ ts \<and> map (find_lock_data lock_data) rest = map Some ts \<and>
                list_all (func_compiled b) ts \<and> distinct ts \<and> set ts \<inter> set (locks @ [ty]) = {})"
        by (rule Cons.IH)
      also have "\<dots> \<longleftrightarrow>
          (\<exists>ts. ls = locks @ ts \<and> map (find_lock_data lock_data) (lock # rest) = map Some ts \<and>
                list_all (func_compiled b) ts \<and> distinct ts \<and> set ts \<inter> set locks = {})"
        (is "?L \<longleftrightarrow> ?R")
      proof
        assume ?L
        then obtain ts where ts: "ls = (locks @ [ty]) @ ts"
          "map (find_lock_data lock_data) rest = map Some ts"
          "list_all (func_compiled b) ts" "distinct ts" "set ts \<inter> set (locks @ [ty]) = {}"
          by blast
        show ?R
          by (rule exI [of _ "ty # ts"]) (use ts Some True in auto)
      next
        assume ?R
        then obtain ts where ts: "ls = locks @ ts"
          "map (find_lock_data lock_data) (lock # rest) = map Some ts"
          "list_all (func_compiled b) ts" "distinct ts" "set ts \<inter> set locks = {}"
          by blast
        from ts(2) Some obtain ts' where ts': "ts = ty # ts'"
          "map (find_lock_data lock_data) rest = map Some ts'"
          by (cases ts) auto
        show ?L
          by (rule exI [of _ ts']) (use ts ts' in auto)
      qed
      finally show ?thesis .
    qed
  qed
qed

lemma mbox_read_lock_methods_Inr:
  "mbox_read_lock_methods b strs env = Inr ls \<longleftrightarrow> valid_methods b strs ls"
  by (auto simp: mbox_read_lock_methods_def mbox_read_lock_methods_loop_Inr valid_methods_def)

text \<open>
  Claim C4. The settings are accepted exactly when both lists parse (every word names a
  method of the table that is compiled in, no method twice in one list) and the read list
  is a subsequence of the write list, in order; everything else is a fatal error. A read
  list \<open>[x, y]\<close> with the write list \<open>[y, x, z]\<close> is refused, and with the write list
  \<open>[x, y, z]\<close> it is accepted.
\<close>

theorem lock_settings_validation:
  "(mbox_init_lock_settings b e = Inr cfg \<longleftrightarrow>
      valid_methods b (read_lock_words e) (read_locks cfg) \<and>
      valid_methods b (write_lock_words e) (write_locks cfg) \<and>
      subseq (read_locks cfg) (write_locks cfg) \<and>
      lock_timeout cfg =
        (case MBOX_LOCK_TIMEOUT e of None \<Rightarrow> DEFAULT_LOCK_TIMEOUT | Some t \<Rightarrow> t) \<and>
      dotlock_change_timeout cfg =
        (case MBOX_DOTLOCK_CHANGE_TIMEOUT e of
           None \<Rightarrow> DEFAULT_DOTLOCK_CHANGE_TIMEOUT | Some t \<Rightarrow> t) \<and>
      lock_settings.more cfg = ()) \<and>
   ((\<nexists>c. mbox_init_lock_settings b e = Inr c) \<longleftrightarrow> (\<exists>f. mbox_init_lock_settings b e = Inl f)) \<and>
   (valid_methods b (read_lock_words e) [x, y] \<and> valid_methods b (write_lock_words e) [y, x, z]
      \<longrightarrow> mbox_init_lock_settings b e = Inl Invalid_lock_lists) \<and>
   (valid_methods b (read_lock_words e) [x, y] \<and> valid_methods b (write_lock_words e) [x, y, z]
      \<longrightarrow> (\<exists>c. mbox_init_lock_settings b e = Inr c \<and> read_locks c = [x, y] \<and>
                write_locks c = [x, y, z]))"
proof (intro conjI)
  show "mbox_init_lock_settings b e = Inr cfg \<longleftrightarrow>
      valid_methods b (read_lock_words e) (read_locks cfg) \<and>
      valid_methods b (write_lock_words e) (write_locks cfg) \<and>
      subseq (read_locks cfg) (write_locks cfg) \<and>
      lock_timeout cfg =
        (case MBOX_LOCK_TIMEOUT e of None \<Rightarrow> DEFAULT_LOCK_TIMEOUT | Some t \<Rightarrow> t) \<and>
      dotlock_change_timeout cfg =
        (case MBOX_DOTLOCK_CHANGE_TIMEOUT e of
           None \<Rightarrow> DEFAULT_DOTLOCK_CHANGE_TIMEOUT | Some t \<Rightarrow> t) \<and>
      lock_settings.more cfg = ()"
    (is "?L \<longleftrightarrow> ?R")
  proof
    assume ?L
    then show ?R
      by (auto simp: mbox_init_lock_settings_def order_check_loop_subseq
            mbox_read_lock_methods_Inr split: sum.splits if_splits)
  next
    assume r: ?R
    then have "mbox_read_lock_methods b (read_lock_words e) ''MBOX_READ_LOCKS'' = Inr (read_locks cfg)"
      and "mbox_read_lock_methods b (write_lock_words e) ''MBOX_WRITE_LOCKS'' = Inr (write_locks cfg)"
      and "order_check_loop (read_locks cfg) (write_locks cfg) = []"
      by (simp_all add: mbox_read_lock_methods_Inr order_check_loop_subseq)
    with r show ?L
      by (simp add: mbox_init_lock_settings_def lock_settings.equality)
  qed
next
  show "(\<nexists>c. mbox_init_lock_settings b e = Inr c) \<longleftrightarrow> (\<exists>f. mbox_init_lock_settings b e = Inl f)"
    by (cases "mbox_init_lock_settings b e") simp_all
next
  show "valid_methods b (read_lock_words e) [x, y] \<and> valid_methods b (write_lock_words e) [y, x, z]
      \<longrightarrow> mbox_init_lock_settings b e = Inl Invalid_lock_lists"
  proof
    assume a: "valid_methods b (read_lock_words e) [x, y] \<and>
               valid_methods b (write_lock_words e) [y, x, z]"
    then have "x \<noteq> y" and "y \<noteq> z" by (auto simp: valid_methods_def)
    moreover from a
    have "mbox_read_lock_methods b (read_lock_words e) ''MBOX_READ_LOCKS'' = Inr [x, y]"
      and "mbox_read_lock_methods b (write_lock_words e) ''MBOX_WRITE_LOCKS'' = Inr [y, x, z]"
      by (simp_all add: mbox_read_lock_methods_Inr)
    ultimately show "mbox_init_lock_settings b e = Inl Invalid_lock_lists"
      by (simp add: mbox_init_lock_settings_def)
  qed
next
  show "valid_methods b (read_lock_words e) [x, y] \<and> valid_methods b (write_lock_words e) [x, y, z]
      \<longrightarrow> (\<exists>c. mbox_init_lock_settings b e = Inr c \<and> read_locks c = [x, y] \<and>
                write_locks c = [x, y, z])"
  proof
    assume a: "valid_methods b (read_lock_words e) [x, y] \<and>
               valid_methods b (write_lock_words e) [x, y, z]"
    then have "mbox_read_lock_methods b (read_lock_words e) ''MBOX_READ_LOCKS'' = Inr [x, y]"
      and "mbox_read_lock_methods b (write_lock_words e) ''MBOX_WRITE_LOCKS'' = Inr [x, y, z]"
      by (simp_all add: mbox_read_lock_methods_Inr)
    then show "\<exists>c. mbox_init_lock_settings b e = Inr c \<and> read_locks c = [x, y] \<and>
                write_locks c = [x, y, z]"
      by (simp add: mbox_init_lock_settings_def)
  qed
qed

theorem lock_settings_validation_witness:
  "mbox_init_lock_settings \<lparr>HAVE_FLOCK = True, HAVE_LOCKF = False\<rparr>
     \<lparr>MBOX_READ_LOCKS = Some [''fcntl'', ''flock''],
      MBOX_WRITE_LOCKS = Some [''flock'', ''fcntl'', ''dotlock''],
      MBOX_LOCK_TIMEOUT = None, MBOX_DOTLOCK_CHANGE_TIMEOUT = None\<rparr> = Inl Invalid_lock_lists \<and>
   (\<exists>c. mbox_init_lock_settings \<lparr>HAVE_FLOCK = True, HAVE_LOCKF = False\<rparr>
     \<lparr>MBOX_READ_LOCKS = Some [''fcntl'', ''flock''],
      MBOX_WRITE_LOCKS = Some [''fcntl'', ''flock'', ''dotlock''],
      MBOX_LOCK_TIMEOUT = None, MBOX_DOTLOCK_CHANGE_TIMEOUT = None\<rparr> = Inr c \<and>
      read_locks c = [MBOX_LOCK_FCNTL, MBOX_LOCK_FLOCK] \<and>
      write_locks c = [MBOX_LOCK_FCNTL, MBOX_LOCK_FLOCK, MBOX_LOCK_DOTLOCK])"
  using lock_settings_validation [of "\<lparr>HAVE_FLOCK = True, HAVE_LOCKF = False\<rparr>"
     "\<lparr>MBOX_READ_LOCKS = Some [''fcntl'', ''flock''],
      MBOX_WRITE_LOCKS = Some [''flock'', ''fcntl'', ''dotlock''],
      MBOX_LOCK_TIMEOUT = None, MBOX_DOTLOCK_CHANGE_TIMEOUT = None\<rparr>" undefined
      MBOX_LOCK_FCNTL MBOX_LOCK_FLOCK MBOX_LOCK_DOTLOCK]
    lock_settings_validation [of "\<lparr>HAVE_FLOCK = True, HAVE_LOCKF = False\<rparr>"
     "\<lparr>MBOX_READ_LOCKS = Some [''fcntl'', ''flock''],
      MBOX_WRITE_LOCKS = Some [''fcntl'', ''flock'', ''dotlock''],
      MBOX_LOCK_TIMEOUT = None, MBOX_DOTLOCK_CHANGE_TIMEOUT = None\<rparr>" undefined
      MBOX_LOCK_FCNTL MBOX_LOCK_FLOCK MBOX_LOCK_DOTLOCK]
  by (simp add: valid_methods_def read_lock_words_def write_lock_words_def
        lock_data_def strcasecmp_eq_def ascii_tolower_def)

lemma invoke_ibox [simp]: "ibox (snd (invoke cl ty lt mw s)) = ibox s"
  by (simp add: invoke_def split: prod.splits)

lemma invoke_calls [simp]:
  "calls (snd (invoke cl ty lt mw s)) = calls s @ [Call ty lt mw (fst (invoke cl ty lt mw s))]"
  by (simp add: invoke_def split: prod.splits)

lemma set_lock_status_simps [simp]:
  "ibox (set_lock_status ty v s) = ibox s"
  "calls (set_lock_status ty v s) = calls s"
  "os (set_lock_status ty v s) = os s"
  "storage_error (set_lock_status ty v s) = storage_error s"
  "lock_status (ctx (set_lock_status ty v s)) = (lock_status (ctx s))(ty := v)"
  by (simp_all add: set_lock_status_def)

lemma mbox_lock_list_loop_walk:
  "idx \<le> length lts \<Longrightarrow>
     mbox_lock_list_loop cl lts lt mw idx ret s = spec_walk cl lt mw (drop idx lts) ret s"
proof (induction "length lts - idx" arbitrary: idx ret s)
  case 0
  then show ?case by (simp add: mbox_lock_list_loop.simps)
next
  case (Suc n)
  then have lt: "idx < length lts" by simp
  then have d: "drop idx lts = lts ! idx # drop (Suc idx) lts"
    by (simp add: Cons_nth_drop_Suc)
  have ih: "mbox_lock_list_loop cl lts lt mw (Suc idx) r t = spec_walk cl lt mw (drop (Suc idx) lts) r t"
    for r t
    using Suc.hyps(1) [of "Suc idx" r t] Suc.hyps(2) lt by simp
  show ?case
    by (subst mbox_lock_list_loop.simps) (simp add: lt d ih split: prod.splits)
qed

lemma spec_walk_ibox: "ibox (snd (spec_walk cl lt mw lts ret s)) = ibox s"
proof (induction lts arbitrary: ret s)
  case Nil
  show ?case by simp
next
  case (Cons b order)
  show ?case
  proof (cases "lock_status (ctx s) b = (lt \<noteq> F_UNLCK)")
    case True
    then show ?thesis using Cons.IH by simp
  next
    case False
    obtain r s' where inv: "invoke cl b lt mw (set_lock_status b (lt \<noteq> F_UNLCK) s) = (r, s')"
      by (cases "invoke cl b lt mw (set_lock_status b (lt \<noteq> F_UNLCK) s)")
    have "ibox s' = ibox s"
      using invoke_ibox [of cl b lt mw "set_lock_status b (lt \<noteq> F_UNLCK) s"] inv by simp
    then show ?thesis using False inv Cons.IH [of r s'] by simp
  qed
qed

text \<open>What a walk adds to the log of backend invocations.\<close>

lemma spec_walk_calls:
  "\<exists>new. calls (snd (spec_walk cl lt mw lts ret s)) = calls s @ new \<and>
         subseq (map call_type new) lts \<and>
         list_all (\<lambda>c. call_kind c = lt \<and> call_wait c = mw) new \<and>
         list_all (\<lambda>c. 0 < call_ret c) (butlast new) \<and>
         fst (spec_walk cl lt mw lts ret s) = (if new = [] then ret else call_ret (last new))"
proof (induction lts arbitrary: ret s)
  case Nil
  show ?case by simp
next
  case (Cons b order)
  show ?case
  proof (cases "lock_status (ctx s) b = (lt \<noteq> F_UNLCK)")
    case True
    obtain new where "calls (snd (spec_walk cl lt mw order ret s)) = calls s @ new"
      "subseq (map call_type new) order"
      "list_all (\<lambda>c. call_kind c = lt \<and> call_wait c = mw) new"
      "list_all (\<lambda>c. 0 < call_ret c) (butlast new)"
      "fst (spec_walk cl lt mw order ret s) = (if new = [] then ret else call_ret (last new))"
      using Cons.IH [of ret s] by blast
    then show ?thesis using True
      by (intro exI [of _ new]) (simp add: list_emb_Cons)
  next
    case False
    obtain r s' where inv: "invoke cl b lt mw (set_lock_status b (lt \<noteq> F_UNLCK) s) = (r, s')"
      by (cases "invoke cl b lt mw (set_lock_status b (lt \<noteq> F_UNLCK) s)")
    have c: "calls s' = calls s @ [Call b lt mw r]"
      using invoke_calls [of cl b lt mw "set_lock_status b (lt \<noteq> F_UNLCK) s"] inv by simp
    show ?thesis
    proof (cases "r \<le> 0")
      case True
      then show ?thesis using False inv c
        by (intro exI [of _ "[Call b lt mw r]"]) simp
    next
      case pos: False
      obtain new where n: "calls (snd (spec_walk cl lt mw order r s')) = calls s' @ new"
        "subseq (map call_type new) order"
        "list_all (\<lambda>c. call_kind c = lt \<and> call_wait c = mw) new"
        "list_all (\<lambda>c. 0 < call_ret c) (butlast new)"
        "fst (spec_walk cl lt mw order r s') = (if new = [] then r else call_ret (last new))"
        using Cons.IH [of r s'] by blast
      show ?thesis using False inv c pos n
        by (intro exI [of _ "Call b lt mw r # new"]) (auto simp: butlast_def)
    qed
  qed
qed

text \<open>
  Claim C5. \<^verbatim>\<open>mbox_lock_list\<close> is the orchestrator the specification describes: it walks
  the write list for an exclusive request and for a release from the exclusive level, the
  read list otherwise, from the given index, skipping a backend whose held-state already
  is the wanted one and applying the others in order. The backends it applies form, in
  order, a subsequence of the list from that index; each one but the last returned
  success, and the result is the value the last one returned (0 when none was applied),
  so nothing is attempted after the first result that is 0 or -1.
\<close>

theorem mbox_lock_list_refines_spec:
  "mbox_lock_list cl cfg lt mw idx s =
     (if idx \<le> length (if lt = F_WRLCK \<or> (lt = F_UNLCK \<and> mbox_lock_type (ibox s) = F_WRLCK)
                         then write_locks cfg else read_locks cfg)
      then Inr (spec_acquire_or_release cl cfg lt mw idx s) else Inl Out_of_bounds) \<and>
   (\<exists>new. calls (snd (spec_acquire_or_release cl cfg lt mw idx s)) = calls s @ new \<and>
      subseq (map call_type new)
        (drop idx (if lt = F_WRLCK \<or> (lt = F_UNLCK \<and> mbox_lock_type (ibox s) = F_WRLCK)
                   then write_locks cfg else read_locks cfg)) \<and>
      list_all (\<lambda>c. call_kind c = lt \<and> call_wait c = mw) new \<and>
      list_all (\<lambda>c. 0 < call_ret c) (butlast new) \<and>
      fst (spec_acquire_or_release cl cfg lt mw idx s) =
        (if new = [] then 0 else call_ret (last new)))"
proof
  show "mbox_lock_list cl cfg lt mw idx s =
     (if idx \<le> length (if lt = F_WRLCK \<or> (lt = F_UNLCK \<and> mbox_lock_type (ibox s) = F_WRLCK)
                         then write_locks cfg else read_locks cfg)
      then Inr (spec_acquire_or_release cl cfg lt mw idx s) else Inl Out_of_bounds)"
    by (simp add: mbox_lock_list_def select_lock_types_def spec_acquire_or_release_def
          mbox_lock_list_loop_walk Let_def)
next
  let ?s1 = "s\<lparr>ctx := (ctx s)\<lparr>lock_type := lt\<rparr>\<rparr>"
  let ?L = "drop idx (if lt = F_WRLCK \<or> (lt = F_UNLCK \<and> mbox_lock_type (ibox s) = F_WRLCK)
                   then write_locks cfg else read_locks cfg)"
  have "calls ?s1 = calls s" by simp
  with spec_walk_calls [of cl lt mw ?L 0 ?s1]
  show "\<exists>new. calls (snd (spec_acquire_or_release cl cfg lt mw idx s)) = calls s @ new \<and>
      subseq (map call_type new) ?L \<and>
      list_all (\<lambda>c. call_kind c = lt \<and> call_wait c = mw) new \<and>
      list_all (\<lambda>c. 0 < call_ret c) (butlast new) \<and>
      fst (spec_acquire_or_release cl cfg lt mw idx s) =
        (if new = [] then 0 else call_ret (last new))"
    unfolding spec_acquire_or_release_def by simp
qed

theorem mbox_lock_list_refines_spec_witness:
  "fst (spec_acquire_or_release
          (table_backends (\<lambda>ty lt. if ty = MBOX_LOCK_FCNTL then 0 else 1))
          default_settings F_WRLCK 1600 0 (fresh_mailbox 0 ())) = 0 \<and>
   calls (snd (spec_acquire_or_release
          (table_backends (\<lambda>ty lt. if ty = MBOX_LOCK_FCNTL then 0 else 1))
          default_settings F_WRLCK 1600 0 (fresh_mailbox 0 ()))) =
     [Call MBOX_LOCK_DOTLOCK F_WRLCK 1600 1, Call MBOX_LOCK_FCNTL F_WRLCK 1600 0]"
proof -
  let ?cl = "table_backends (\<lambda>ty lt. if ty = MBOX_LOCK_FCNTL then 0 else 1)"
  have "mbox_lock_list ?cl default_settings F_WRLCK 1600 0 (fresh_mailbox 0 ()) =
          Inr (spec_acquire_or_release ?cl default_settings F_WRLCK 1600 0 (fresh_mailbox 0 ()))"
    using mbox_lock_list_refines_spec [of ?cl default_settings F_WRLCK 1600 0 "fresh_mailbox 0 ()"]
    by (simp add: default_settings_def)
  moreover have "map_sum id (\<lambda>(r, s). (r, calls s))
          (mbox_lock_list ?cl default_settings F_WRLCK 1600 0 (fresh_mailbox 0 ())) =
        Inr (0, [Call MBOX_LOCK_DOTLOCK F_WRLCK 1600 1, Call MBOX_LOCK_FCNTL F_WRLCK 1600 0])"
    by (simp add: mbox_lock_list_def default_settings_def select_lock_types_def fresh_mailbox_def
          mbox_lock_list_loop.simps table_backends_def invoke_def set_lock_status_def zero_ctx_def)
  ultimately show ?thesis
    by (simp split: prod.splits)
qed

section \<open>The passes of mbox_update_locking\<close>

lemma mbox_lock_list_0:
  "mbox_lock_list cl cfg lt mw 0 s =
     Inr (spec_walk cl lt mw (select_lock_types cfg lt (ibox s)) 0
            (s\<lparr>ctx := (ctx s)\<lparr>lock_type := lt\<rparr>\<rparr>))"
  by (simp add: mbox_lock_list_def mbox_lock_list_loop_walk Let_def)

lemma mark_locks_apply: "mark_locks v ls st ty = (if ty \<in> set ls then v else st ty)"
  unfolding mark_locks_def by (induction ls arbitrary: st) auto

lemma spec_walk_new_calls:
  "calls (snd (spec_walk cl lt mw lts ret s)) = calls s @ new_calls s (snd (spec_walk cl lt mw lts ret s))"
  using spec_walk_calls [of cl lt mw lts ret s] by (auto simp: new_calls_def)

lemma spec_walk_new_calls_kind:
  "c \<in> set (new_calls s (snd (spec_walk cl lt mw lts ret s))) \<Longrightarrow>
     call_kind c = lt \<and> call_wait c = mw \<and> call_type c \<in> set lts"
proof -
  assume c: "c \<in> set (new_calls s (snd (spec_walk cl lt mw lts ret s)))"
  obtain new where n: "calls (snd (spec_walk cl lt mw lts ret s)) = calls s @ new"
    "subseq (map call_type new) lts"
    "list_all (\<lambda>c. call_kind c = lt \<and> call_wait c = mw) new"
    using spec_walk_calls [of cl lt mw lts ret s] by blast
  from n(1) have "new_calls s (snd (spec_walk cl lt mw lts ret s)) = new"
    by (simp add: new_calls_def)
  with c have cn: "c \<in> set new" by simp
  with n(3) have "call_kind c = lt \<and> call_wait c = mw"
    by (simp add: list_all_iff)
  moreover have "call_type c \<in> set lts"
    using list_emb_set [OF n(2), of "call_type c"] cn by auto
  ultimately show ?thesis by simp
qed

lemma invoke_ctx:
  "ctx (snd (invoke cl ty lt mw s)) =
     fst (snd (func cl ty (ibox s) lt mw (ctx s, storage_error s, os s)))"
  by (simp add: invoke_def split: prod.splits)

lemma invoke_fst:
  "fst (invoke cl ty lt mw s) = fst (func cl ty (ibox s) lt mw (ctx s, storage_error s, os s))"
  by (simp add: invoke_def split: prod.splits)

lemma invoke_release_status:
  "release_keeps_status cl \<Longrightarrow>
     lock_status (ctx (snd (invoke cl ty F_UNLCK mw s))) = lock_status (ctx s)"
proof -
  assume "release_keeps_status cl"
  then have "lock_status (fst (snd (func cl ty (ibox s) F_UNLCK mw (ctx s, storage_error s, os s)))) =
               lock_status (ctx s)"
    unfolding release_keeps_status_def by blast
  then show ?thesis
    by (simp add: invoke_ctx)
qed


lemma new_calls_append: "calls s' = calls s @ new \<Longrightarrow> new_calls s s' = new"
  by (simp add: new_calls_def)

text \<open>A release walk only asks backends whose flag was set when it started.\<close>

lemma spec_walk_release_held:
  assumes "release_keeps_status cl"
  shows "\<exists>new. calls (snd (spec_walk cl F_UNLCK mw lts ret s)) = calls s @ new \<and>
           (\<forall>c\<in>set new. lock_status (ctx s) (call_type c)) \<and>
           (\<forall>ty. lock_status (ctx (snd (spec_walk cl F_UNLCK mw lts ret s))) ty
                   \<longrightarrow> lock_status (ctx s) ty)"
proof (induction lts arbitrary: ret s)
  case Nil
  show ?case by simp
next
  case (Cons b order)
  show ?case
  proof (cases "lock_status (ctx s) b")
    case False
    then show ?thesis using Cons.IH [of ret s] by simp
  next
    case True
    let ?s0 = "set_lock_status b False s"
    obtain r s' where inv: "invoke cl b F_UNLCK mw ?s0 = (r, s')"
      by (cases "invoke cl b F_UNLCK mw ?s0")
    have c: "calls s' = calls s @ [Call b F_UNLCK mw r]"
      using invoke_calls [of cl b F_UNLCK mw ?s0] inv by simp
    have st: "lock_status (ctx s') = (lock_status (ctx s))(b := False)"
      using invoke_release_status [OF assms, of b mw ?s0] inv by simp
    show ?thesis
    proof (cases "r \<le> 0")
      case True
      with \<open>lock_status (ctx s) b\<close> inv c st show ?thesis
        by (intro exI [of _ "[Call b F_UNLCK mw r]"]) simp
    next
      case False
      obtain new where n: "calls (snd (spec_walk cl F_UNLCK mw order r s')) = calls s' @ new"
        "\<forall>c\<in>set new. lock_status (ctx s') (call_type c)"
        "\<forall>ty. lock_status (ctx (snd (spec_walk cl F_UNLCK mw order r s'))) ty
                   \<longrightarrow> lock_status (ctx s') ty"
        using Cons.IH [of r s'] by blast
      have "\<forall>c\<in>set (Call b F_UNLCK mw r # new). lock_status (ctx s) (call_type c)"
        using n(2) st \<open>lock_status (ctx s) b\<close> by (auto split: if_splits)
      moreover have "\<forall>ty. lock_status (ctx (snd (spec_walk cl F_UNLCK mw order r s'))) ty
                   \<longrightarrow> lock_status (ctx s) ty"
        using n(3) st by (auto split: if_splits)
      ultimately show ?thesis using False \<open>lock_status (ctx s) b\<close> inv c n(1)
        by (intro exI [of _ "Call b F_UNLCK mw r # new"]) simp
    qed
  qed
qed

section \<open>Demotion\<close>

text \<open>What \<^verbatim>\<open>mbox_update_locking\<close> does when the handle is at the exclusive level.\<close>

lemma mbox_update_locking_demote:
  assumes "mbox_lock_type (ibox s) = F_WRLCK"
  shows "mbox_update_locking cl cfg F_RDLCK s =
    (let s1 = s\<lparr>os := index_storage_lock_notify_reset cl (os s),
                 ibox := (ibox s)\<lparr>mbox_lock_type := F_RDLCK\<rparr>,
                 ctx := zero_ctx\<lparr>lock_status := (\<lambda>ty. ty \<notin> set (read_locks cfg)),
                                 lock_type := F_RDLCK\<rparr>\<rparr>;
         w1 = spec_walk cl F_RDLCK
                (time_now cl (index_storage_lock_notify_reset cl (os s)) + lock_timeout cfg)
                (read_locks cfg) 0 s1
     in if fst w1 \<le> 0
        then Inr (fst w1, if fst w1 = 0 then (snd w1)\<lparr>storage_error := Some timeout_error\<rparr>
                          else snd w1)
        else
          (let s3 = (snd w1)\<lparr>ibox := (ibox (snd w1))\<lparr>mbox_lock_type := F_WRLCK\<rparr>,
                      ctx := (ctx (snd w1))\<lparr>lock_status :=
                        (\<lambda>ty. ty \<in> set (write_locks cfg) \<and> ty \<notin> set (read_locks cfg)),
                        lock_type := F_UNLCK\<rparr>\<rparr>;
               w2 = spec_walk cl F_UNLCK 0 (write_locks cfg) 0 s3
           in Inr (1, (snd w2)\<lparr>ibox := (ibox (snd w2))\<lparr>mbox_lock_type := F_RDLCK\<rparr>\<rparr>)))"
proof -
  have m1: "mark_locks False (read_locks cfg) (\<lambda>_. True) = (\<lambda>ty. ty \<notin> set (read_locks cfg))"
    by (rule ext) (simp add: mark_locks_apply)
  have m2: "mark_locks False (read_locks cfg) (mark_locks True (write_locks cfg) (\<lambda>_. False)) =
              (\<lambda>ty. ty \<in> set (write_locks cfg) \<and> ty \<notin> set (read_locks cfg))"
    by (rule ext) (simp add: mark_locks_apply)
  show ?thesis
    using assms
    by (simp add: mbox_update_locking_def mbox_lock_list_0 select_lock_types_def m1 m2 Let_def
          case_prod_beta)
qed


lemma spec_walk_release_new_calls_held:
  assumes "release_keeps_status cl"
    and "c \<in> set (new_calls s (snd (spec_walk cl F_UNLCK mw lts ret s)))"
  shows "lock_status (ctx s) (call_type c)"
proof -
  obtain new where n: "calls (snd (spec_walk cl F_UNLCK mw lts ret s)) = calls s @ new"
    "\<forall>c\<in>set new. lock_status (ctx s) (call_type c)"
    using spec_walk_release_held [OF assms(1), of mw lts ret s] by blast
  from n(1) have "new_calls s (snd (spec_walk cl F_UNLCK mw lts ret s)) = new"
    by (rule new_calls_append)
  with assms(2) n(2) show ?thesis by simp
qed

lemma mbox_unlock_last_exclusive:
  assumes "mbox_lock_id (ibox s) = lock_id AND NOT 1" and "lock_id AND 1 \<noteq> 0"
    and "mbox_excl_locks (ibox s) = 1" and "0 < mbox_shared_locks (ibox s)"
  shows "mbox_unlock cl cfg lock_id s =
    (case mbox_update_locking cl cfg F_RDLCK (s\<lparr>ibox := (ibox s)\<lparr>mbox_excl_locks := 0\<rparr>\<rparr>) of
       Inl f \<Rightarrow> Inl f
     | Inr (r, s2) \<Rightarrow> Inr (if r < 0 then - 1 else 0, s2))"
  using assms by (simp add: mbox_unlock_def)

text \<open>
  Claim C1. When the last exclusive token is released while shared tokens remain, the
  backend requests made are first requests for the shared kind, to backends of the read
  list only, and then release requests, to backends of the write list that are not in the
  read list only. So a backend of the read list gets no release request.
\<close>

theorem demotion_never_releases_common:
  assumes "mbox_lock_type (ibox s) = F_WRLCK"
    and "mbox_lock_id (ibox s) = lock_id AND NOT 1" and "lock_id AND 1 \<noteq> 0"
    and "mbox_excl_locks (ibox s) = 1" and "0 < mbox_shared_locks (ibox s)"
    and "release_keeps_status cl"
  shows "\<exists>r s'. mbox_unlock cl cfg lock_id s = Inr (r, s') \<and>
           mbox_lock_type (ibox s') = F_RDLCK \<and>
           (\<exists>sw rel. new_calls s s' = sw @ rel \<and>
              list_all (\<lambda>c. call_kind c = F_RDLCK \<and> call_type c \<in> set (read_locks cfg)) sw \<and>
              list_all (\<lambda>c. call_kind c = F_UNLCK \<and> call_type c \<in> set (write_locks cfg) \<and>
                            call_type c \<notin> set (read_locks cfg)) rel) \<and>
           list_all (\<lambda>c. call_type c \<notin> set (read_locks cfg) \<or> call_kind c \<noteq> F_UNLCK)
             (new_calls s s')"
proof -
  define s0 where "s0 = s\<lparr>ibox := (ibox s)\<lparr>mbox_excl_locks := 0\<rparr>\<rparr>"
  define mw where "mw = time_now cl (index_storage_lock_notify_reset cl (os s0)) + lock_timeout cfg"
  define s1 where "s1 = s0\<lparr>os := index_storage_lock_notify_reset cl (os s0),
                 ibox := (ibox s0)\<lparr>mbox_lock_type := F_RDLCK\<rparr>,
                 ctx := zero_ctx\<lparr>lock_status := (\<lambda>ty. ty \<notin> set (read_locks cfg)),
                                 lock_type := F_RDLCK\<rparr>\<rparr>"
  define w1 where "w1 = spec_walk cl F_RDLCK mw (read_locks cfg) 0 s1"
  define s3 where "s3 = (snd w1)\<lparr>ibox := (ibox (snd w1))\<lparr>mbox_lock_type := F_WRLCK\<rparr>,
                      ctx := (ctx (snd w1))\<lparr>lock_status :=
                        (\<lambda>ty. ty \<in> set (write_locks cfg) \<and> ty \<notin> set (read_locks cfg)),
                        lock_type := F_UNLCK\<rparr>\<rparr>"
  define w2 where "w2 = spec_walk cl F_UNLCK 0 (write_locks cfg) 0 s3"
  define n1 where "n1 = new_calls s1 (snd w1)"
  define n2 where "n2 = new_calls s3 (snd w2)"
  have wr: "mbox_lock_type (ibox s0) = F_WRLCK" using assms(1) by (simp add: s0_def)
  have d: "mbox_update_locking cl cfg F_RDLCK s0 =
     (if fst w1 \<le> 0
      then Inr (fst w1, if fst w1 = 0 then (snd w1)\<lparr>storage_error := Some timeout_error\<rparr>
                        else snd w1)
      else Inr (1, (snd w2)\<lparr>ibox := (ibox (snd w2))\<lparr>mbox_lock_type := F_RDLCK\<rparr>\<rparr>))"
    unfolding w2_def s3_def w1_def s1_def mw_def
    using mbox_update_locking_demote [OF wr, of cl cfg] by (simp only: Let_def)
  have u: "mbox_unlock cl cfg lock_id s =
    (case mbox_update_locking cl cfg F_RDLCK s0 of
       Inl f \<Rightarrow> Inl f
     | Inr (r, s2) \<Rightarrow> Inr (if r < 0 then - 1 else 0, s2))"
    unfolding s0_def using assms(2-5) by (rule mbox_unlock_last_exclusive)
  have cs1: "calls s1 = calls s" by (simp add: s1_def s0_def)
  have c1: "calls (snd w1) = calls s @ n1"
    using spec_walk_new_calls [of cl F_RDLCK mw "read_locks cfg" 0 s1] cs1
    by (simp add: w1_def n1_def)
  have cs3: "calls s3 = calls (snd w1)" by (simp add: s3_def)
  have c2: "calls (snd w2) = calls s @ n1 @ n2"
    using spec_walk_new_calls [of cl F_UNLCK 0 "write_locks cfg" 0 s3] c1 cs3
    by (simp add: w2_def n2_def)
  have p1: "list_all (\<lambda>c. call_kind c = F_RDLCK \<and> call_type c \<in> set (read_locks cfg)) n1"
    unfolding list_all_iff n1_def w1_def
    using spec_walk_new_calls_kind [of _ s1 cl F_RDLCK mw "read_locks cfg" 0] by blast
  have st3: "lock_status (ctx s3) =
               (\<lambda>ty. ty \<in> set (write_locks cfg) \<and> ty \<notin> set (read_locks cfg))"
    by (simp add: s3_def)
  have p2: "list_all (\<lambda>c. call_kind c = F_UNLCK \<and> call_type c \<in> set (write_locks cfg) \<and>
                            call_type c \<notin> set (read_locks cfg)) n2"
    unfolding list_all_iff
  proof
    fix c assume "c \<in> set n2"
    then have c: "c \<in> set (new_calls s3 (snd (spec_walk cl F_UNLCK 0 (write_locks cfg) 0 s3)))"
      by (simp add: n2_def w2_def)
    have "call_kind c = F_UNLCK"
      using spec_walk_new_calls_kind [OF c] by simp
    moreover have "lock_status (ctx s3) (call_type c)"
      using spec_walk_release_new_calls_held [OF assms(6) c] .
    ultimately show "call_kind c = F_UNLCK \<and> call_type c \<in> set (write_locks cfg) \<and>
                            call_type c \<notin> set (read_locks cfg)"
      by (simp add: st3)
  qed
  have ib1: "mbox_lock_type (ibox (snd w1)) = F_RDLCK"
    using spec_walk_ibox [of cl F_RDLCK mw "read_locks cfg" 0 s1]
    by (simp add: w1_def s1_def)
  show ?thesis
  proof (cases "fst w1 \<le> 0")
    case True
    define s' where "s' = (if fst w1 = 0 then (snd w1)\<lparr>storage_error := Some timeout_error\<rparr>
                           else snd w1)"
    have r: "mbox_unlock cl cfg lock_id s = Inr (if fst w1 < 0 then - 1 else 0, s')"
      using True u d by (simp add: s'_def)
    have nc: "new_calls s s' = n1 @ []"
      using c1 by (simp add: new_calls_def s'_def)
    have lt: "mbox_lock_type (ibox s') = F_RDLCK"
      using ib1 by (simp add: s'_def)
    have "list_all (\<lambda>c. call_type c \<notin> set (read_locks cfg) \<or> call_kind c \<noteq> F_UNLCK)
             (new_calls s s')"
      using p1 nc by (auto simp: list_all_iff)
    with r nc p1 lt show ?thesis by (intro exI conjI) (assumption | simp)+
  next
    case False
    define s' where "s' = (snd w2)\<lparr>ibox := (ibox (snd w2))\<lparr>mbox_lock_type := F_RDLCK\<rparr>\<rparr>"
    have r: "mbox_unlock cl cfg lock_id s = Inr (0, s')"
      using False u d by (simp add: s'_def)
    have nc: "new_calls s s' = n1 @ n2"
      using c2 by (simp add: new_calls_def s'_def)
    have lt: "mbox_lock_type (ibox s') = F_RDLCK"
      by (simp add: s'_def)
    have "list_all (\<lambda>c. call_type c \<notin> set (read_locks cfg) \<or> call_kind c \<noteq> F_UNLCK)
             (new_calls s s')"
      using p1 p2 nc by (auto simp: list_all_iff)
    with r nc p1 p2 lt show ?thesis by (intro exI conjI) (assumption | simp)+
  qed
qed


lemma table_backends_keeps_lock_status: "keeps_lock_status (table_backends tbl)"
  by (simp add: keeps_lock_status_def table_backends_def)

lemma table_backends_release_keeps_status: "release_keeps_status (table_backends tbl)"
  by (simp add: release_keeps_status_def table_backends_def)

lemmas run_simps =
  mbox_lock_def mbox_unlock_def all_locks_gone_def mbox_update_locking_def mbox_unlock_files_def
  mbox_lock_list_def select_lock_types_def mbox_lock_list_loop.simps invoke_def
  set_lock_status_def zero_ctx_def mark_locks_def table_backends_def default_settings_def
  fresh_mailbox_def new_calls_def DEFAULT_LOCK_TIMEOUT_def

theorem demotion_never_releases_common_witness:
  "release_keeps_status (table_backends (\<lambda>ty lt. 1)) \<and>
   (\<exists>r s'. mbox_unlock (table_backends (\<lambda>ty lt. 1)) default_settings 3
       ((fresh_mailbox 2 ())\<lparr>ibox := \<lparr>mbox_lock_type = F_WRLCK, mbox_lock_id = 2,
          mbox_shared_locks = 1, mbox_excl_locks = 1\<rparr>\<rparr>) = Inr (r, s') \<and>
      list_all (\<lambda>c. call_type c \<notin> set (read_locks default_settings) \<or> call_kind c \<noteq> F_UNLCK)
        (new_calls ((fresh_mailbox 2 ())\<lparr>ibox := \<lparr>mbox_lock_type = F_WRLCK, mbox_lock_id = 2,
          mbox_shared_locks = 1, mbox_excl_locks = 1\<rparr>\<rparr>) s')) \<and>
   map_sum id (\<lambda>(r, s'). (r, calls s'))
     (mbox_unlock (table_backends (\<lambda>ty lt. 1)) default_settings 3
       ((fresh_mailbox 2 ())\<lparr>ibox := \<lparr>mbox_lock_type = F_WRLCK, mbox_lock_id = 2,
          mbox_shared_locks = 1, mbox_excl_locks = 1\<rparr>\<rparr>)) =
     Inr (0, [Call MBOX_LOCK_FCNTL F_RDLCK 1600 1, Call MBOX_LOCK_DOTLOCK F_UNLCK 0 1])"
proof -
  let ?cl = "table_backends (\<lambda>ty lt. 1) :: unit collaborators"
  let ?s = "(fresh_mailbox 2 ())\<lparr>ibox := \<lparr>mbox_lock_type = F_WRLCK, mbox_lock_id = 2,
          mbox_shared_locks = 1, mbox_excl_locks = 1\<rparr>\<rparr>"
  have h1: "mbox_lock_type (ibox ?s) = F_WRLCK" by simp
  have h2: "mbox_lock_id (ibox ?s) = 3 AND NOT 1" by simp
  have h3: "(3 :: 32 word) AND 1 \<noteq> 0" by simp
  have h4: "mbox_excl_locks (ibox ?s) = 1" by simp
  have h5: "0 < mbox_shared_locks (ibox ?s)" by simp
  have h6: "release_keeps_status ?cl" by (rule table_backends_release_keeps_status)
  from demotion_never_releases_common [OF h1 h2 h3 h4 h5 h6, of default_settings]
  have "\<exists>r s'. mbox_unlock ?cl default_settings 3 ?s = Inr (r, s') \<and>
      list_all (\<lambda>c. call_type c \<notin> set (read_locks default_settings) \<or> call_kind c \<noteq> F_UNLCK)
        (new_calls ?s s')"
    by blast
  moreover have "map_sum id (\<lambda>(r, s'). (r, calls s'))
     (mbox_unlock ?cl default_settings 3 ?s) =
     Inr (0, [Call MBOX_LOCK_FCNTL F_RDLCK 1600 1, Call MBOX_LOCK_DOTLOCK F_UNLCK 0 1])"
    by (simp add: run_simps)
  ultimately show ?thesis using h6 by blast
qed

section \<open>The handle after each operation\<close>

lemma mbox_unlock_files_result:
  "\<exists>r s'. mbox_unlock_files cl cfg s = Inr (r, s') \<and>
          ibox s' = (ibox s)\<lparr>mbox_lock_id := mbox_lock_id (ibox s) + 2, mbox_lock_type := F_UNLCK\<rparr>"
  by (simp add: mbox_unlock_files_def mbox_lock_list_0 case_prod_beta spec_walk_ibox)

lemma mbox_update_locking_result:
  "\<exists>r s'. mbox_update_locking cl cfg lt s = Inr (r, s') \<and> (r \<le> 0 \<or> r = 1) \<and>
     ibox s' =
       (if mbox_lock_type (ibox s) = F_WRLCK
        then (ibox s)\<lparr>mbox_lock_type := (if r \<le> 0 then lt else F_RDLCK)\<rparr>
        else if r \<le> 0
        then (ibox s)\<lparr>mbox_lock_id := mbox_lock_id (ibox s) + 2, mbox_lock_type := F_UNLCK\<rparr>
        else (ibox s)\<lparr>mbox_lock_type := lt\<rparr>)"
  by (simp add: mbox_update_locking_def mbox_unlock_files_def mbox_lock_list_0 case_prod_beta
        spec_walk_ibox Let_def)


text \<open>The handle after \<^verbatim>\<open>mbox_lock\<close>, by cases on the level before and the result.\<close>

lemma mbox_lock_result:
  assumes "mbox_lock cl cfg lt s = Inr (r, tok, s')"
  shows "lt \<noteq> F_UNLCK \<and> (lt = F_RDLCK \<or> mbox_lock_type (ibox s) \<noteq> F_RDLCK) \<and>
    (if mbox_lock_type (ibox s) = F_UNLCK \<and> r \<le> 0
     then tok = None \<and>
          ibox s' = (ibox s)\<lparr>mbox_lock_id := mbox_lock_id (ibox s) + 2, mbox_lock_type := F_UNLCK\<rparr>
     else r = 1 \<and>
          tok = Some ((if mbox_lock_type (ibox s) = F_UNLCK then mbox_lock_id (ibox s) + 2
                       else mbox_lock_id (ibox s)) + (if lt = F_RDLCK then 0 else 1)) \<and>
          ibox s' =
            \<lparr> mbox_lock_type = (if mbox_lock_type (ibox s) = F_UNLCK then lt
                                else mbox_lock_type (ibox s)),
              mbox_lock_id = (if mbox_lock_type (ibox s) = F_UNLCK then mbox_lock_id (ibox s) + 2
                              else mbox_lock_id (ibox s)),
              mbox_shared_locks = mbox_shared_locks (ibox s) + (if lt = F_RDLCK then 1 else 0),
              mbox_excl_locks = mbox_excl_locks (ibox s) + (if lt = F_RDLCK then 0 else 1) \<rparr>)"
proof -
  obtain r1 s1 where u: "mbox_update_locking cl cfg lt s = Inr (r1, s1)" "r1 \<le> 0 \<or> r1 = 1"
    "ibox s1 =
       (if mbox_lock_type (ibox s) = F_WRLCK
        then (ibox s)\<lparr>mbox_lock_type := (if r1 \<le> 0 then lt else F_RDLCK)\<rparr>
        else if r1 \<le> 0
        then (ibox s)\<lparr>mbox_lock_id := mbox_lock_id (ibox s) + 2, mbox_lock_type := F_UNLCK\<rparr>
        else (ibox s)\<lparr>mbox_lock_type := lt\<rparr>)"
    using mbox_update_locking_result [of cl cfg lt s] by blast
  show ?thesis
  proof (cases "mbox_lock_type (ibox s) = F_UNLCK")
    case True
    with assms u show ?thesis
      by (cases lt) (auto simp: mbox_lock_def split: if_splits)
  next
    case False
    with assms show ?thesis
      by (cases lt) (auto simp: mbox_lock_def split: if_splits)
  qed
qed


lemma all_locks_gone_result:
  "\<exists>r s'. all_locks_gone cl cfg s = Inr (r, s') \<and>
          ibox s' = (ibox s)\<lparr>mbox_lock_id := mbox_lock_id (ibox s) + 2, mbox_lock_type := F_UNLCK\<rparr>"
  using mbox_unlock_files_result [of cl cfg "s\<lparr>ctx := zero_ctx\<lparr>lock_status := (\<lambda>_. True)\<rparr>\<rparr>"]
  by (simp add: all_locks_gone_def)

lemma word_pred_pos: "(0 :: 32 word) < x - 1 \<longleftrightarrow> x \<noteq> 1"
  by (simp add: word_gt_0)

text \<open>The handle after \<^verbatim>\<open>mbox_unlock\<close>, by cases on the token and the counters.\<close>

lemma mbox_unlock_result:
  assumes "mbox_unlock cl cfg lock_id s = Inr (r, s')"
  shows "mbox_lock_id (ibox s) = lock_id AND NOT 1 \<and>
    (if lock_id AND 1 \<noteq> 0 then
       0 < mbox_excl_locks (ibox s) \<and>
       (if mbox_excl_locks (ibox s) \<noteq> 1
        then ibox s' = (ibox s)\<lparr>mbox_excl_locks := mbox_excl_locks (ibox s) - 1\<rparr>
        else if 0 < mbox_shared_locks (ibox s)
        then ibox s' = (ibox s)\<lparr>mbox_excl_locks := 0, mbox_lock_type := F_RDLCK\<rparr> \<or>
             (mbox_lock_type (ibox s) \<noteq> F_WRLCK \<and>
              ibox s' = (ibox s)\<lparr>mbox_excl_locks := 0,
                                   mbox_lock_id := mbox_lock_id (ibox s) + 2,
                                   mbox_lock_type := F_UNLCK\<rparr>)
        else ibox s' = (ibox s)\<lparr>mbox_excl_locks := 0,
                                  mbox_lock_id := mbox_lock_id (ibox s) + 2,
                                  mbox_lock_type := F_UNLCK\<rparr>)
     else
       0 < mbox_shared_locks (ibox s) \<and>
       (if mbox_shared_locks (ibox s) \<noteq> 1
        then ibox s' = (ibox s)\<lparr>mbox_shared_locks := mbox_shared_locks (ibox s) - 1\<rparr>
        else if 0 < mbox_excl_locks (ibox s)
        then ibox s' = (ibox s)\<lparr>mbox_shared_locks := 0\<rparr>
        else ibox s' = (ibox s)\<lparr>mbox_shared_locks := 0,
                                  mbox_lock_id := mbox_lock_id (ibox s) + 2,
                                  mbox_lock_type := F_UNLCK\<rparr>))"
proof -
  let ?se = "s\<lparr>ibox := (ibox s)\<lparr>mbox_excl_locks := mbox_excl_locks (ibox s) - 1\<rparr>\<rparr>"
  let ?ss = "s\<lparr>ibox := (ibox s)\<lparr>mbox_shared_locks := mbox_shared_locks (ibox s) - 1\<rparr>\<rparr>"
  obtain r1 s1 where u: "mbox_update_locking cl cfg F_RDLCK ?se = Inr (r1, s1)"
    "ibox s1 =
       (if mbox_lock_type (ibox ?se) = F_WRLCK
        then (ibox ?se)\<lparr>mbox_lock_type := (if r1 \<le> 0 then F_RDLCK else F_RDLCK)\<rparr>
        else if r1 \<le> 0
        then (ibox ?se)\<lparr>mbox_lock_id := mbox_lock_id (ibox ?se) + 2, mbox_lock_type := F_UNLCK\<rparr>
        else (ibox ?se)\<lparr>mbox_lock_type := F_RDLCK\<rparr>)"
    using mbox_update_locking_result [of cl cfg F_RDLCK ?se] by blast
  obtain r2 s2 where ge: "all_locks_gone cl cfg ?se = Inr (r2, s2)"
    "ibox s2 = (ibox ?se)\<lparr>mbox_lock_id := mbox_lock_id (ibox ?se) + 2, mbox_lock_type := F_UNLCK\<rparr>"
    using all_locks_gone_result [of cl cfg ?se] by blast
  obtain r3 s3 where gs: "all_locks_gone cl cfg ?ss = Inr (r3, s3)"
    "ibox s3 = (ibox ?ss)\<lparr>mbox_lock_id := mbox_lock_id (ibox ?ss) + 2, mbox_lock_type := F_UNLCK\<rparr>"
    using all_locks_gone_result [of cl cfg ?ss] by blast
  show ?thesis
  proof (cases "lock_id AND 1 \<noteq> 0")
    case True
    with assms u ge show ?thesis
      by (auto simp: mbox_unlock_def Let_def word_pred_pos split: if_splits)
  next
    case False
    with assms gs show ?thesis
      by (auto simp: mbox_unlock_def Let_def word_pred_pos split: if_splits)
  qed
qed

section \<open>The invariant of the handle\<close>

lemma unat_incr_bound:
  fixes x :: "32 word"
  assumes "unat x \<le> n" and "n < 2 ^ 32 - 1"
  shows "x + 1 \<noteq> 0" and "unat (x + 1) \<le> Suc n" and "0 < x + 1"
proof -
  have "unat x + unat (1 :: 32 word) < 2 ^ LENGTH(32)" using assms by simp
  then have e: "unat (x + 1) = unat x + 1" by (simp add: unat_add_lem [THEN iffD1])
  then show "x + 1 \<noteq> 0" by (metis Suc_eq_plus1 nat.simps(3) unat_0)
  then show "0 < x + 1" by (simp add: word_gt_0)
  show "unat (x + 1) \<le> Suc n" using e assms by simp
qed

lemma unat_decr_bound:
  fixes x :: "32 word"
  assumes "unat x \<le> n" and "0 < x"
  shows "unat (x - 1) \<le> Suc n"
proof -
  from assms(2) have "x \<noteq> 0" by (simp add: word_gt_0)
  then have "unat (x - 1) = unat x - 1" by (rule unat_minus_one)
  with assms(1) show ?thesis by simp
qed

lemma word_pos_ne_1: "(0 :: 32 word) < x \<Longrightarrow> x \<noteq> 1 \<Longrightarrow> 0 < x - 1"
  by (simp add: word_pred_pos)

lemma mbox_lock_keeps_invariant:
  assumes "handle_invariant_strong (ibox s)"
    and "unat (mbox_shared_locks (ibox s)) \<le> n" and "unat (mbox_excl_locks (ibox s)) \<le> n"
    and "n < 2 ^ 32 - 1"
    and "mbox_lock cl cfg lt s = Inr (r, tok, s')"
  shows "handle_invariant_strong (ibox s') \<and>
         unat (mbox_shared_locks (ibox s')) \<le> Suc n \<and> unat (mbox_excl_locks (ibox s')) \<le> Suc n"
proof -
  note b1 = unat_incr_bound [OF assms(2) assms(4)]
  note b2 = unat_incr_bound [OF assms(3) assms(4)]
  from mbox_lock_result [OF assms(5)] assms(1,2,3) b1 b2 show ?thesis
    by (cases lt; cases "mbox_lock_type (ibox s)")
       (auto simp: handle_invariant_strong_def handle_invariant_def split: if_splits)
qed

lemma mbox_unlock_keeps_invariant:
  assumes "handle_invariant_strong (ibox s)"
    and "unat (mbox_shared_locks (ibox s)) \<le> n" and "unat (mbox_excl_locks (ibox s)) \<le> n"
    and "mbox_unlock cl cfg lock_id s = Inr (r, s')"
  shows "handle_invariant_strong (ibox s') \<and>
         unat (mbox_shared_locks (ibox s')) \<le> Suc n \<and> unat (mbox_excl_locks (ibox s')) \<le> Suc n"
proof -
  note r = mbox_unlock_result [OF assms(4)]
  show ?thesis
  proof (cases "lock_id AND 1 \<noteq> 0")
    case True
    with r have p: "0 < mbox_excl_locks (ibox s)" by simp
    note d = unat_decr_bound [OF assms(3) p]
    from True r assms(1,2,3) d p show ?thesis
      by (cases "mbox_lock_type (ibox s)")
         (auto simp: handle_invariant_strong_def handle_invariant_def word_pred_pos word_gt_0
               split: if_splits)
  next
    case False
    with r have p: "0 < mbox_shared_locks (ibox s)" by simp
    note d = unat_decr_bound [OF assms(2) p]
    from False r assms(1,2,3) d p show ?thesis
      by (cases "mbox_lock_type (ibox s)")
         (auto simp: handle_invariant_strong_def handle_invariant_def word_pred_pos word_gt_0
               split: if_splits)
  qed
qed


lemma run_ops_keeps_invariant:
  assumes "handle_invariant_strong (ibox s)"
    and "unat (mbox_shared_locks (ibox s)) \<le> n" and "unat (mbox_excl_locks (ibox s)) \<le> n"
    and "n + length ops < 2 ^ 32"
    and "run_ops cl cfg ops s = Inr s'"
  shows "handle_invariant_strong (ibox s')"
  using assms
proof (induction ops arbitrary: s n)
  case Nil
  then show ?case by simp
next
  case (Cons o1 ops)
  from Cons.prems(4) have n: "n < 2 ^ 32 - 1" and n': "Suc n + length ops < 2 ^ 32" by simp_all
  show ?case
  proof (cases o1)
    case (Lock lt)
    with Cons.prems(5) obtain r tok s1 where l: "mbox_lock cl cfg lt s = Inr (r, tok, s1)"
      and rest: "run_ops cl cfg ops s1 = Inr s'"
      by (auto split: sum.splits)
    from mbox_lock_keeps_invariant [OF Cons.prems(1-3) n l]
    show ?thesis using Cons.IH [OF _ _ _ n' rest] by blast
  next
    case (Unlock lock_id)
    with Cons.prems(5) obtain r s1 where l: "mbox_unlock cl cfg lock_id s = Inr (r, s1)"
      and rest: "run_ops cl cfg ops s1 = Inr s'"
      by (auto split: sum.splits)
    from mbox_unlock_keeps_invariant [OF Cons.prems(1-3) l]
    show ?thesis using Cons.IH [OF _ _ _ n' rest] by blast
  qed
qed

text \<open>
  Claim C8. On a handle that starts unlocked with no reference, after any sequence of
  lock and unlock operations (fewer than \<open>2 ^ 32\<close> of them, the range of the counters) the
  lock type is \<^verbatim>\<open>F_UNLCK\<close> exactly when both counters are zero, and it is \<^verbatim>\<open>F_WRLCK\<close> only
  while the exclusive counter is positive.
\<close>

theorem handle_invariant_after_every_operation:
  assumes "mbox_lock_type (ibox s) = F_UNLCK"
    and "mbox_shared_locks (ibox s) = 0" and "mbox_excl_locks (ibox s) = 0"
    and "length ops < 2 ^ 32"
    and "run_ops cl cfg ops s = Inr s'"
  shows "((mbox_lock_type (ibox s') = F_UNLCK) =
            (mbox_shared_locks (ibox s') = 0 \<and> mbox_excl_locks (ibox s') = 0)) \<and>
         (mbox_lock_type (ibox s') = F_WRLCK \<longrightarrow> 0 < mbox_excl_locks (ibox s')) \<and>
         handle_invariant (ibox s')"
proof -
  have "handle_invariant_strong (ibox s)"
    using assms(1-3) by (simp add: handle_invariant_strong_def handle_invariant_def)
  moreover have "unat (mbox_shared_locks (ibox s)) \<le> 0" "unat (mbox_excl_locks (ibox s)) \<le> 0"
    using assms(2,3) by simp_all
  moreover have "0 + length ops < 2 ^ 32" using assms(4) by simp
  ultimately have "handle_invariant_strong (ibox s')"
    using assms(5) by (rule run_ops_keeps_invariant)
  then show ?thesis
    by (auto simp: handle_invariant_strong_def handle_invariant_def)
qed


theorem handle_invariant_after_every_operation_witness:
  "\<exists>s'. run_ops (table_backends (\<lambda>ty lt. 1)) default_settings
           [Lock F_WRLCK, Lock F_RDLCK, Unlock 3] (fresh_mailbox 0 ()) = Inr s' \<and>
        ibox s' = \<lparr>mbox_lock_type = F_RDLCK, mbox_lock_id = 2,
                    mbox_shared_locks = 1, mbox_excl_locks = 0\<rparr> \<and>
        handle_invariant (ibox s')"
proof -
  let ?cl = "table_backends (\<lambda>ty lt. 1) :: unit collaborators"
  let ?ops = "[Lock F_WRLCK, Lock F_RDLCK, Unlock 3]"
  have e: "map_sum id ibox (run_ops ?cl default_settings ?ops (fresh_mailbox 0 ())) =
             Inr \<lparr>mbox_lock_type = F_RDLCK, mbox_lock_id = 2,
                   mbox_shared_locks = 1, mbox_excl_locks = 0\<rparr>"
    by (simp add: run_simps)
  then obtain s' where r: "run_ops ?cl default_settings ?ops (fresh_mailbox 0 ()) = Inr s'"
    and i: "ibox s' = \<lparr>mbox_lock_type = F_RDLCK, mbox_lock_id = 2,
                    mbox_shared_locks = 1, mbox_excl_locks = 0\<rparr>"
    by (cases "run_ops ?cl default_settings ?ops (fresh_mailbox 0 ())") auto
  have h1: "mbox_lock_type (ibox (fresh_mailbox 0 ())) = F_UNLCK"
    and h2: "mbox_shared_locks (ibox (fresh_mailbox 0 ())) = 0"
    and h3: "mbox_excl_locks (ibox (fresh_mailbox 0 ())) = 0"
    by (simp_all add: fresh_mailbox_def)
  have h4: "length ?ops < 2 ^ 32" by simp
  from handle_invariant_after_every_operation [OF h1 h2 h3 h4 r] r i
  show ?thesis by blast
qed

section \<open>Tokens and the epoch\<close>

lemma and_1_even: "(e :: 32 word) AND 1 = 0 \<longleftrightarrow> even e"
  by (simp add: and_one_eq even_iff_mod_2_eq_zero)

lemma even_and_not_1: "even (e :: 32 word) \<Longrightarrow> e AND NOT 1 = e"
  by (rule bit_eqI) (auto simp: bit_simps bit_0 intro: ccontr)

lemma even_Suc_or: "even (e :: 32 word) \<Longrightarrow> e + 1 = e OR 1"
  by (simp add: or_one_eq)

lemma odd_and_not_1: "even (e :: 32 word) \<Longrightarrow> (e + 1) AND NOT 1 = e"
  unfolding even_Suc_or
  by (rule bit_eqI) (auto simp: bit_simps bit_0 intro: ccontr)

lemma odd_and_1: "even (e :: 32 word) \<Longrightarrow> (e + 1) AND 1 \<noteq> 0"
  by (simp add: and_1_even)


lemma mbox_lock_epoch:
  assumes "mbox_lock cl cfg lt s = Inr (r, tok, s')"
  shows "mbox_lock_id (ibox s') = mbox_lock_id (ibox s) \<or>
         mbox_lock_id (ibox s') = mbox_lock_id (ibox s) + 2"
  using mbox_lock_result [OF assms] by (auto split: if_splits)

lemma mbox_unlock_epoch:
  assumes "mbox_unlock cl cfg lock_id s = Inr (r, s')"
  shows "mbox_lock_id (ibox s') = mbox_lock_id (ibox s) \<or>
         mbox_lock_id (ibox s') = mbox_lock_id (ibox s) + 2"
  using mbox_unlock_result [OF assms] by (auto split: if_splits)

lemma run_ops_epoch:
  assumes "run_ops cl cfg ops s = Inr s'"
  shows "\<exists>k\<le>length ops. mbox_lock_id (ibox s') = mbox_lock_id (ibox s) + 2 * of_nat k"
  using assms
proof (induction ops arbitrary: s)
  case Nil
  then show ?case by simp
next
  case (Cons o1 ops)
  have "\<exists>s1. run_ops cl cfg ops s1 = Inr s' \<and>
          (mbox_lock_id (ibox s1) = mbox_lock_id (ibox s) \<or>
           mbox_lock_id (ibox s1) = mbox_lock_id (ibox s) + 2)"
  proof (cases o1)
    case (Lock lt)
    with Cons.prems obtain r tok s1 where l: "mbox_lock cl cfg lt s = Inr (r, tok, s1)"
      and rest: "run_ops cl cfg ops s1 = Inr s'"
      by (auto split: sum.splits)
    from mbox_lock_epoch [OF l] rest show ?thesis by blast
  next
    case (Unlock lock_id)
    with Cons.prems obtain r s1 where l: "mbox_unlock cl cfg lock_id s = Inr (r, s1)"
      and rest: "run_ops cl cfg ops s1 = Inr s'"
      by (auto split: sum.splits)
    from mbox_unlock_epoch [OF l] rest show ?thesis by blast
  qed
  then obtain s1 where rest: "run_ops cl cfg ops s1 = Inr s'"
    and e: "mbox_lock_id (ibox s1) = mbox_lock_id (ibox s) \<or>
            mbox_lock_id (ibox s1) = mbox_lock_id (ibox s) + 2"
    by blast
  from Cons.IH [OF rest] obtain k where k: "k \<le> length ops"
    "mbox_lock_id (ibox s') = mbox_lock_id (ibox s1) + 2 * of_nat k"
    by blast
  from e show ?case
  proof
    assume "mbox_lock_id (ibox s1) = mbox_lock_id (ibox s)"
    with k show ?thesis by (intro exI [of _ k]) simp
  next
    assume "mbox_lock_id (ibox s1) = mbox_lock_id (ibox s) + 2"
    with k show ?thesis by (intro exI [of _ "Suc k"]) simp
  qed
qed

lemma twice_of_nat_neq_0:
  assumes "0 < m" and "m < 2 ^ 31"
  shows "(2 * of_nat m :: 32 word) \<noteq> 0"
proof
  assume "(2 * of_nat m :: 32 word) = 0"
  then have "(of_nat (2 * m) :: 32 word) = 0" by simp
  then have "2 ^ LENGTH(32) dvd 2 * m" by (simp only: word_of_nat_eq_0_iff)
  moreover have "0 < 2 * m" "2 * m < 2 ^ LENGTH(32)" using assms by simp_all
  ultimately show False by (meson nat_dvd_not_less)
qed

text \<open>
  Claim C6. \<^verbatim>\<open>mbox_unlock\<close> asserts that the token with its low bit cleared is the
  handle's lock id, and fails the assertion otherwise. A token of \<^verbatim>\<open>mbox_lock\<close> is the
  lock id, plus one for an exclusive lock. After a full release (\<^verbatim>\<open>mbox_unlock_files\<close>)
  a token of the epoch before it fails the assertion, at once and after any further
  operations, as long as the 32-bit lock id has not wrapped around (fewer than
  \<open>2 ^ 31 - 1\<close> operations).
\<close>

theorem stale_token_fails_assertion:
  "(mbox_lock_id (ibox s) \<noteq> lock_id AND NOT 1 \<longrightarrow>
      mbox_unlock cl cfg lock_id s = Inl Assertion_failed) \<and>
   (even (mbox_lock_id (ibox s)) \<and> mbox_lock cl cfg lt s = Inr (r0, Some tok, s0) \<longrightarrow>
      tok AND NOT 1 = mbox_lock_id (ibox s0) \<and> (tok AND 1 \<noteq> 0) = (lt = F_WRLCK)) \<and>
   (lock_id AND NOT 1 = mbox_lock_id (ibox s) \<and> mbox_unlock_files cl cfg s = Inr (r, s1) \<and>
    run_ops cl cfg ops s1 = Inr s2 \<and> length ops < 2 ^ 31 - 1 \<longrightarrow>
      mbox_lock_id (ibox s1) = mbox_lock_id (ibox s) + 2 \<and>
      mbox_unlock cl cfg lock_id s2 = Inl Assertion_failed)"
proof (intro conjI impI)
  assume "mbox_lock_id (ibox s) \<noteq> lock_id AND NOT 1"
  then show "mbox_unlock cl cfg lock_id s = Inl Assertion_failed"
    by (simp add: mbox_unlock_def)
next
  assume a: "even (mbox_lock_id (ibox s)) \<and> mbox_lock cl cfg lt s = Inr (r0, Some tok, s0)"
  then have l: "mbox_lock cl cfg lt s = Inr (r0, Some tok, s0)" and ev: "even (mbox_lock_id (ibox s))"
    by simp_all
  from mbox_lock_result [OF l]
  have id0: "mbox_lock_id (ibox s0) =
               (if mbox_lock_type (ibox s) = F_UNLCK then mbox_lock_id (ibox s) + 2
                else mbox_lock_id (ibox s))"
    and tk: "tok = mbox_lock_id (ibox s0) + (if lt = F_RDLCK then 0 else 1)"
    and ltk: "lt \<noteq> F_UNLCK"
    by (auto split: if_splits)
  from ev id0 have ev0: "even (mbox_lock_id (ibox s0))" by simp
  show "tok AND NOT 1 = mbox_lock_id (ibox s0)"
  proof (cases "lt = F_RDLCK")
    case True
    with tk have "tok = mbox_lock_id (ibox s0)" by simp
    with ev0 show ?thesis by (simp only: even_and_not_1)
  next
    case False
    with tk have "tok = mbox_lock_id (ibox s0) + 1" by simp
    with ev0 show ?thesis by (simp only: odd_and_not_1)
  qed
  show "(tok AND 1 \<noteq> 0) = (lt = F_WRLCK)"
  proof (cases "lt = F_RDLCK")
    case True
    with tk have "tok = mbox_lock_id (ibox s0)" by simp
    with ev0 True show ?thesis by (simp add: and_1_even)
  next
    case False
    with tk have "tok = mbox_lock_id (ibox s0) + 1" by simp
    moreover from False ltk have "lt = F_WRLCK" by (cases lt) simp_all
    ultimately show ?thesis using ev0 by (simp add: and_1_even)
  qed
next
  assume a: "lock_id AND NOT 1 = mbox_lock_id (ibox s) \<and> mbox_unlock_files cl cfg s = Inr (r, s1) \<and>
    run_ops cl cfg ops s1 = Inr s2 \<and> length ops < 2 ^ 31 - 1"
  then have u: "mbox_unlock_files cl cfg s = Inr (r, s1)" and ro: "run_ops cl cfg ops s1 = Inr s2"
    and len: "length ops < 2 ^ 31 - 1" and tk: "lock_id AND NOT 1 = mbox_lock_id (ibox s)"
    by simp_all
  from mbox_unlock_files_result [of cl cfg s] u
  show e1: "mbox_lock_id (ibox s1) = mbox_lock_id (ibox s) + 2" by auto
  from run_ops_epoch [OF ro] obtain k where k: "k \<le> length ops"
    "mbox_lock_id (ibox s2) = mbox_lock_id (ibox s1) + 2 * of_nat k"
    by blast
  have "mbox_lock_id (ibox s2) = mbox_lock_id (ibox s) + 2 * of_nat (Suc k)"
    using k(2) e1 by simp
  moreover have "(2 * of_nat (Suc k) :: 32 word) \<noteq> 0"
    using k(1) len by (intro twice_of_nat_neq_0) simp_all
  ultimately have "mbox_lock_id (ibox s2) \<noteq> mbox_lock_id (ibox s)"
    by (metis add_cancel_right_right)
  with tk show "mbox_unlock cl cfg lock_id s2 = Inl Assertion_failed"
    by (simp add: mbox_unlock_def)
qed


theorem stale_token_fails_assertion_witness:
  "\<exists>r s1 s2.
     mbox_unlock_files (table_backends (\<lambda>ty lt. 1)) default_settings
       ((fresh_mailbox 2 ())\<lparr>ibox := \<lparr>mbox_lock_type = F_RDLCK, mbox_lock_id = 2,
          mbox_shared_locks = 0, mbox_excl_locks = 0\<rparr>\<rparr>) = Inr (r, s1) \<and>
     run_ops (table_backends (\<lambda>ty lt. 1)) default_settings [Lock F_RDLCK] s1 = Inr s2 \<and>
     mbox_lock_id (ibox s2) = 6 \<and>
     mbox_unlock (table_backends (\<lambda>ty lt. 1)) default_settings 2 s2 = Inl Assertion_failed"
proof -
  let ?cl = "table_backends (\<lambda>ty lt. 1) :: unit collaborators"
  let ?s = "(fresh_mailbox 2 ())\<lparr>ibox := \<lparr>mbox_lock_type = F_RDLCK, mbox_lock_id = 2,
          mbox_shared_locks = 0, mbox_excl_locks = 0\<rparr>\<rparr>"
  have "map_sum id (\<lambda>(r, s1). map_sum id (\<lambda>s2. mbox_lock_id (ibox s2))
                         (run_ops ?cl default_settings [Lock F_RDLCK] s1))
          (mbox_unlock_files ?cl default_settings ?s) = Inr (Inr 6)"
    by (simp add: run_simps)
  then obtain r s1 s2 where u: "mbox_unlock_files ?cl default_settings ?s = Inr (r, s1)"
    and ro: "run_ops ?cl default_settings [Lock F_RDLCK] s1 = Inr s2"
    and e: "mbox_lock_id (ibox s2) = 6"
    by (cases "mbox_unlock_files ?cl default_settings ?s";
        cases "run_ops ?cl default_settings [Lock F_RDLCK]
                 (snd (projr (mbox_unlock_files ?cl default_settings ?s)))")
       (auto split: prod.splits)
  have tk: "(2 :: 32 word) AND NOT 1 = mbox_lock_id (ibox ?s)" by simp
  have len: "length [Lock F_RDLCK] < (2 :: nat) ^ 31 - 1" by simp
  from stale_token_fails_assertion
         [where s = ?s and lock_id = 2 and cl = ?cl and cfg = default_settings and r = r
            and ?s1.0 = s1 and ops = "[Lock F_RDLCK]" and ?s2.0 = s2]
       tk u ro len
  have "mbox_unlock ?cl default_settings 2 s2 = Inl Assertion_failed" by blast
  with u ro e show ?thesis by blast
qed


lemma mbox_unlock_last_reference:
  assumes "mbox_lock_id (ibox s) = lock_id AND NOT 1"
  shows "lock_id AND 1 \<noteq> 0 \<Longrightarrow> mbox_excl_locks (ibox s) = 1 \<Longrightarrow> mbox_shared_locks (ibox s) = 0 \<Longrightarrow>
           mbox_unlock cl cfg lock_id s =
             all_locks_gone cl cfg (s\<lparr>ibox := (ibox s)\<lparr>mbox_excl_locks := 0\<rparr>\<rparr>)"
    and "lock_id AND 1 = 0 \<Longrightarrow> mbox_shared_locks (ibox s) = 1 \<Longrightarrow> mbox_excl_locks (ibox s) = 0 \<Longrightarrow>
           mbox_unlock cl cfg lock_id s =
             all_locks_gone cl cfg (s\<lparr>ibox := (ibox s)\<lparr>mbox_shared_locks := 0\<rparr>\<rparr>)"
  using assms by (simp_all add: mbox_unlock_def)

text \<open>
  Claim C10. \<^verbatim>\<open>mbox_unlock_files\<close> always adds 2 to the lock id and sets the lock type to
  \<^verbatim>\<open>F_UNLCK\<close>. So a \<^verbatim>\<open>mbox_lock\<close> from the unlocked level that fails leaves the lock id
  advanced by 2 and issues no token, and a successful \<^verbatim>\<open>mbox_lock\<close> from the unlocked level
  followed by the \<^verbatim>\<open>mbox_unlock\<close> of its token advances the lock id by 4: 2 at the
  acquisition and 2 at the release.
\<close>

theorem full_release_advances_epoch:
  "(\<exists>r s'. mbox_unlock_files cl cfg s = Inr (r, s') \<and>
      mbox_lock_id (ibox s') = mbox_lock_id (ibox s) + 2 \<and> mbox_lock_type (ibox s') = F_UNLCK) \<and>
   (mbox_lock_type (ibox s) = F_UNLCK \<and> mbox_lock cl cfg lt s = Inr (r1, tok, s1) \<and> r1 \<le> 0 \<longrightarrow>
      tok = None \<and> mbox_lock_id (ibox s1) = mbox_lock_id (ibox s) + 2 \<and>
      mbox_lock_type (ibox s1) = F_UNLCK) \<and>
   (mbox_lock_type (ibox s) = F_UNLCK \<and> mbox_shared_locks (ibox s) = 0 \<and>
    mbox_excl_locks (ibox s) = 0 \<and> even (mbox_lock_id (ibox s)) \<and>
    mbox_lock cl cfg lt s = Inr (r1, Some t1, s1) \<longrightarrow>
      mbox_lock_id (ibox s1) = mbox_lock_id (ibox s) + 2 \<and>
      (\<exists>r2 s2. mbox_unlock cl cfg t1 s1 = Inr (r2, s2) \<and>
         mbox_lock_id (ibox s2) = mbox_lock_id (ibox s) + 4 \<and>
         mbox_lock_type (ibox s2) = F_UNLCK))"
proof (intro conjI impI)
  show "\<exists>r s'. mbox_unlock_files cl cfg s = Inr (r, s') \<and>
      mbox_lock_id (ibox s') = mbox_lock_id (ibox s) + 2 \<and> mbox_lock_type (ibox s') = F_UNLCK"
    using mbox_unlock_files_result [of cl cfg s] by auto
next
  assume a: "mbox_lock_type (ibox s) = F_UNLCK \<and> mbox_lock cl cfg lt s = Inr (r1, tok, s1) \<and> r1 \<le> 0"
  then have l: "mbox_lock cl cfg lt s = Inr (r1, tok, s1)" by simp
  from mbox_lock_result [OF l] a
  show "tok = None" "mbox_lock_id (ibox s1) = mbox_lock_id (ibox s) + 2"
    "mbox_lock_type (ibox s1) = F_UNLCK"
    by simp_all
next
  assume a: "mbox_lock_type (ibox s) = F_UNLCK \<and> mbox_shared_locks (ibox s) = 0 \<and>
    mbox_excl_locks (ibox s) = 0 \<and> even (mbox_lock_id (ibox s)) \<and>
    mbox_lock cl cfg lt s = Inr (r1, Some t1, s1)"
  then have l: "mbox_lock cl cfg lt s = Inr (r1, Some t1, s1)"
    and ev: "even (mbox_lock_id (ibox s))" by simp_all
  from mbox_lock_result [OF l] a
  have i1: "ibox s1 = \<lparr> mbox_lock_type = lt, mbox_lock_id = mbox_lock_id (ibox s) + 2,
              mbox_shared_locks = (if lt = F_RDLCK then 1 else 0),
              mbox_excl_locks = (if lt = F_RDLCK then 0 else 1) \<rparr>"
    and tk: "t1 = mbox_lock_id (ibox s) + 2 + (if lt = F_RDLCK then 0 else 1)"
    by (auto split: if_splits)
  from i1 show e1: "mbox_lock_id (ibox s1) = mbox_lock_id (ibox s) + 2" by simp
  from ev have ev1: "even (mbox_lock_id (ibox s) + 2)" by simp
  show "\<exists>r2 s2. mbox_unlock cl cfg t1 s1 = Inr (r2, s2) \<and>
         mbox_lock_id (ibox s2) = mbox_lock_id (ibox s) + 4 \<and>
         mbox_lock_type (ibox s2) = F_UNLCK"
  proof (cases "lt = F_RDLCK")
    case True
    with tk have t: "t1 = mbox_lock_id (ibox s) + 2" by simp
    have v: "mbox_lock_id (ibox s1) = t1 AND NOT 1"
      unfolding t e1 using ev1 by (simp only: even_and_not_1)
    have b: "t1 AND 1 = 0" unfolding t using ev1 by (simp only: and_1_even)
    have "mbox_unlock cl cfg t1 s1 =
            all_locks_gone cl cfg (s1\<lparr>ibox := (ibox s1)\<lparr>mbox_shared_locks := 0\<rparr>\<rparr>)"
      using mbox_unlock_last_reference(2) [OF v b] i1 True by simp
    with all_locks_gone_result [of cl cfg "s1\<lparr>ibox := (ibox s1)\<lparr>mbox_shared_locks := 0\<rparr>\<rparr>"] e1
    show ?thesis by auto
  next
    case False
    with tk have t: "t1 = (mbox_lock_id (ibox s) + 2) + 1" by simp
    have v: "mbox_lock_id (ibox s1) = t1 AND NOT 1"
      unfolding t e1 using ev1 by (simp only: odd_and_not_1)
    have b: "t1 AND 1 \<noteq> 0" unfolding t using ev1 by (rule odd_and_1)
    have "mbox_unlock cl cfg t1 s1 =
            all_locks_gone cl cfg (s1\<lparr>ibox := (ibox s1)\<lparr>mbox_excl_locks := 0\<rparr>\<rparr>)"
      using mbox_unlock_last_reference(1) [OF v b] i1 False by simp
    with all_locks_gone_result [of cl cfg "s1\<lparr>ibox := (ibox s1)\<lparr>mbox_excl_locks := 0\<rparr>\<rparr>"] e1
    show ?thesis by auto
  qed
qed


theorem full_release_advances_epoch_witness:
  "(\<exists>s1. mbox_lock (table_backends (\<lambda>ty lt. if lt = F_UNLCK then 1 else 0)) default_settings
            F_RDLCK (fresh_mailbox 0 ()) = Inr (0, None, s1) \<and>
          mbox_lock_id (ibox s1) = 2 \<and> mbox_lock_type (ibox s1) = F_UNLCK) \<and>
   (\<exists>s1 r2 s2. mbox_lock (table_backends (\<lambda>ty lt. 1)) default_settings
            F_WRLCK (fresh_mailbox 0 ()) = Inr (1, Some 3, s1) \<and>
          mbox_unlock (table_backends (\<lambda>ty lt. 1)) default_settings 3 s1 = Inr (r2, s2) \<and>
          mbox_lock_id (ibox s2) = 4 \<and> mbox_lock_type (ibox s2) = F_UNLCK)"
proof
  let ?cl = "table_backends (\<lambda>ty lt. if lt = F_UNLCK then 1 else 0) :: unit collaborators"
  have "map_sum id (\<lambda>(r, tok, s1). (r, tok))
          (mbox_lock ?cl default_settings F_RDLCK (fresh_mailbox 0 ())) = Inr (0, None)"
    by (simp add: run_simps)
  then obtain s1 where l: "mbox_lock ?cl default_settings F_RDLCK (fresh_mailbox 0 ()) = Inr (0, None, s1)"
    by (cases "mbox_lock ?cl default_settings F_RDLCK (fresh_mailbox 0 ())") auto
  have h: "mbox_lock_type (ibox (fresh_mailbox 0 ())) = F_UNLCK" by (simp add: fresh_mailbox_def)
  from full_release_advances_epoch
         [where s = "fresh_mailbox 0 ()" and cl = ?cl and cfg = default_settings and lt = F_RDLCK
            and ?r1.0 = 0 and tok = None and ?s1.0 = s1] h l
  have "mbox_lock_id (ibox s1) = mbox_lock_id (ibox (fresh_mailbox 0 ())) + 2 \<and>
        mbox_lock_type (ibox s1) = F_UNLCK"
    by simp
  then have "mbox_lock_id (ibox s1) = 2 \<and> mbox_lock_type (ibox s1) = F_UNLCK"
    by (simp add: fresh_mailbox_def)
  with l show "\<exists>s1. mbox_lock ?cl default_settings F_RDLCK (fresh_mailbox 0 ()) = Inr (0, None, s1) \<and>
          mbox_lock_id (ibox s1) = 2 \<and> mbox_lock_type (ibox s1) = F_UNLCK"
    by blast
next
  let ?cl = "table_backends (\<lambda>ty lt. 1) :: unit collaborators"
  have "map_sum id (\<lambda>(r, tok, s1). (r, tok))
          (mbox_lock ?cl default_settings F_WRLCK (fresh_mailbox 0 ())) = Inr (1, Some 3)"
    by (simp add: run_simps)
  then obtain s1 where l: "mbox_lock ?cl default_settings F_WRLCK (fresh_mailbox 0 ()) = Inr (1, Some 3, s1)"
    by (cases "mbox_lock ?cl default_settings F_WRLCK (fresh_mailbox 0 ())") auto
  have h: "mbox_lock_type (ibox (fresh_mailbox 0 ())) = F_UNLCK \<and>
           mbox_shared_locks (ibox (fresh_mailbox 0 ())) = 0 \<and>
           mbox_excl_locks (ibox (fresh_mailbox 0 ())) = 0 \<and>
           even (mbox_lock_id (ibox (fresh_mailbox 0 ())))"
    by (simp add: fresh_mailbox_def)
  from full_release_advances_epoch
         [where s = "fresh_mailbox 0 ()" and cl = ?cl and cfg = default_settings and lt = F_WRLCK
            and ?r1.0 = 1 and ?t1.0 = 3 and ?s1.0 = s1] h l
  have "\<exists>r2 s2. mbox_unlock ?cl default_settings 3 s1 = Inr (r2, s2) \<and>
         mbox_lock_id (ibox s2) = mbox_lock_id (ibox (fresh_mailbox 0 ())) + 4 \<and>
         mbox_lock_type (ibox s2) = F_UNLCK"
    by blast
  then have "\<exists>r2 s2. mbox_unlock ?cl default_settings 3 s1 = Inr (r2, s2) \<and>
         mbox_lock_id (ibox s2) = 4 \<and> mbox_lock_type (ibox s2) = F_UNLCK"
    by (simp add: fresh_mailbox_def)
  with l show "\<exists>s1 r2 s2. mbox_lock ?cl default_settings F_WRLCK (fresh_mailbox 0 ()) = Inr (1, Some 3, s1) \<and>
          mbox_unlock ?cl default_settings 3 s1 = Inr (r2, s2) \<and>
          mbox_lock_id (ibox s2) = 4 \<and> mbox_lock_type (ibox s2) = F_UNLCK"
    by blast
qed

section \<open>Reference counting of shared locks\<close>

lemma run_ops_append:
  "run_ops cl cfg (xs @ ys) s =
     (case run_ops cl cfg xs s of Inl f \<Rightarrow> Inl f | Inr s' \<Rightarrow> run_ops cl cfg ys s')"
proof (induction xs arbitrary: s)
  case Nil
  show ?case by simp
next
  case (Cons x xs)
  show ?case
    by (cases x) (simp_all add: Cons.IH split: sum.splits prod.splits)
qed

lemma of_nat_neq_0_32:
  assumes "0 < m" and "m < 2 ^ 32"
  shows "(of_nat m :: 32 word) \<noteq> 0"
proof
  assume "(of_nat m :: 32 word) = 0"
  then have "2 ^ LENGTH(32) dvd m" by (simp only: word_of_nat_eq_0_iff)
  moreover have "m < 2 ^ LENGTH(32)" using assms by simp
  ultimately show False using assms(1) by (meson nat_dvd_not_less)
qed

text \<open>A shared lock on a handle that is at the shared level only counts.\<close>

lemma mbox_lock_shared_again:
  assumes "mbox_lock_type (ibox s) = F_RDLCK"
  shows "mbox_lock cl cfg F_RDLCK s =
           Inr (1, Some (mbox_lock_id (ibox s)),
                s\<lparr>ibox := (ibox s)\<lparr>mbox_shared_locks := mbox_shared_locks (ibox s) + 1\<rparr>\<rparr>)"
  using assms by (simp add: mbox_lock_def)

text \<open>Unlocking a shared token that is not the last one only counts.\<close>

lemma mbox_unlock_shared_not_last:
  assumes "mbox_lock_id (ibox s) = lock_id AND NOT 1" and "lock_id AND 1 = 0"
    and "mbox_shared_locks (ibox s) \<noteq> 0" and "mbox_shared_locks (ibox s) \<noteq> 1"
  shows "mbox_unlock cl cfg lock_id s =
           Inr (0, s\<lparr>ibox := (ibox s)\<lparr>mbox_shared_locks := mbox_shared_locks (ibox s) - 1\<rparr>\<rparr>)"
  using assms by (simp add: mbox_unlock_def word_gt_0 Let_def)

text \<open>The first shared lock on an unlocked handle, when the acquisition succeeds.\<close>

lemma mbox_lock_first_shared:
  assumes "ibox s = \<lparr>mbox_lock_type = F_UNLCK, mbox_lock_id = e,
                      mbox_shared_locks = 0, mbox_excl_locks = 0\<rparr>"
    and "mbox_update_locking cl cfg F_RDLCK s = Inr (r, s1)" and "0 < r"
  shows "mbox_lock cl cfg F_RDLCK s =
           Inr (1, Some (e + 2),
                s1\<lparr>ibox := \<lparr>mbox_lock_type = F_RDLCK, mbox_lock_id = e + 2,
                              mbox_shared_locks = 1, mbox_excl_locks = 0\<rparr>\<rparr>)"
proof -
  from mbox_update_locking_result [of cl cfg F_RDLCK s] assms
  have "r = 1" and "ibox s1 = \<lparr>mbox_lock_type = F_RDLCK, mbox_lock_id = e,
                      mbox_shared_locks = 0, mbox_excl_locks = 0\<rparr>"
    by auto
  with assms show ?thesis by (simp add: mbox_lock_def)
qed

lemma run_locks_shared:
  assumes "ibox s = \<lparr>mbox_lock_type = F_UNLCK, mbox_lock_id = e,
                      mbox_shared_locks = 0, mbox_excl_locks = 0\<rparr>"
    and "mbox_update_locking cl cfg F_RDLCK s = Inr (r, s1)" and "0 < r"
  shows "run_ops cl cfg (replicate (Suc k) (Lock F_RDLCK)) s =
           Inr (s1\<lparr>ibox := shared_held (e + 2) (Suc k)\<rparr>)"
proof (induction k)
  case 0
  show ?case
    using mbox_lock_first_shared [OF assms] by (simp add: shared_held_def)
next
  case (Suc k)
  have "replicate (Suc (Suc k)) (Lock F_RDLCK) = replicate (Suc k) (Lock F_RDLCK) @ [Lock F_RDLCK]"
    by (simp add: replicate_append_same)
  then have "run_ops cl cfg (replicate (Suc (Suc k)) (Lock F_RDLCK)) s =
               run_ops cl cfg [Lock F_RDLCK] (s1\<lparr>ibox := shared_held (e + 2) (Suc k)\<rparr>)"
    using Suc.IH by (simp only: run_ops_append sum.case)
  also have "\<dots> = Inr (s1\<lparr>ibox := shared_held (e + 2) (Suc (Suc k))\<rparr>)"
    by (simp add: mbox_lock_shared_again shared_held_def)
  finally show ?case .
qed

lemma run_unlocks_shared:
  assumes "even e" and "j < n" and "n < 2 ^ 32"
  shows "run_ops cl cfg (replicate j (Unlock e)) (s1\<lparr>ibox := shared_held e n\<rparr>) =
           Inr (s1\<lparr>ibox := shared_held e (n - j)\<rparr>)"
  using assms(2)
proof (induction j)
  case 0
  show ?case by simp
next
  case (Suc j)
  then have j: "j < n" by simp
  have "replicate (Suc j) (Unlock e) = replicate j (Unlock e) @ [Unlock e]"
    by (simp add: replicate_append_same)
  then have "run_ops cl cfg (replicate (Suc j) (Unlock e)) (s1\<lparr>ibox := shared_held e n\<rparr>) =
               run_ops cl cfg [Unlock e] (s1\<lparr>ibox := shared_held e (n - j)\<rparr>)"
    using Suc.IH [OF j] by (simp only: run_ops_append sum.case)
  also have "\<dots> = Inr (s1\<lparr>ibox := shared_held e (n - Suc j)\<rparr>)"
  proof -
    let ?t = "s1\<lparr>ibox := shared_held e (n - j)\<rparr>"
    have m: "0 < n - j" "n - j < 2 ^ 32" "0 < n - j - 1" "n - j - 1 < 2 ^ 32"
      using Suc.prems assms(3) by simp_all
    have v: "mbox_lock_id (ibox ?t) = e AND NOT 1"
      using even_and_not_1 [OF assms(1)] by (simp add: shared_held_def)
    have b: "e AND 1 = 0" using assms(1) by (simp only: and_1_even)
    have n0: "mbox_shared_locks (ibox ?t) \<noteq> 0"
      using of_nat_neq_0_32 [OF m(1,2)] by (simp add: shared_held_def)
    have "(of_nat (n - j) :: 32 word) - 1 = of_nat (n - j - 1)"
      using m(1) by (simp add: of_nat_diff)
    then have d: "mbox_shared_locks (ibox ?t) - 1 = of_nat (n - Suc j)"
      by (simp add: shared_held_def)
    have n1: "mbox_shared_locks (ibox ?t) \<noteq> 1"
    proof
      assume "mbox_shared_locks (ibox ?t) = 1"
      then have "mbox_shared_locks (ibox ?t) - 1 = 0" by simp
      with d have "(of_nat (n - Suc j) :: 32 word) = 0" by simp
      moreover have "(of_nat (n - Suc j) :: 32 word) \<noteq> 0"
        using of_nat_neq_0_32 [of "n - Suc j"] m by simp
      ultimately show False by simp
    qed
    have "?t\<lparr>ibox := (ibox ?t)\<lparr>mbox_shared_locks := mbox_shared_locks (ibox ?t) - 1\<rparr>\<rparr> =
            s1\<lparr>ibox := shared_held e (n - Suc j)\<rparr>"
      using d by (simp add: shared_held_def)
    then show ?thesis
      using mbox_unlock_shared_not_last [OF v b n0 n1, of cl cfg] by simp
  qed
  finally show ?case .
qed

text \<open>What \<^verbatim>\<open>mbox_update_locking\<close> does when the handle is not at the exclusive level.\<close>

lemma mbox_update_locking_acquire:
  assumes "mbox_lock_type (ibox s) \<noteq> F_WRLCK"
  shows "mbox_update_locking cl cfg lt s =
    (let s1 = s\<lparr>os := index_storage_lock_notify_reset cl (os s),
                 ibox := (ibox s)\<lparr>mbox_lock_type := lt\<rparr>,
                 ctx := zero_ctx\<lparr>lock_type := lt\<rparr>\<rparr>;
         w1 = spec_walk cl lt
                (time_now cl (index_storage_lock_notify_reset cl (os s)) + lock_timeout cfg)
                (select_lock_types cfg lt ((ibox s)\<lparr>mbox_lock_type := lt\<rparr>)) 0 s1
     in if fst w1 \<le> 0
        then (case mbox_unlock_files cl cfg (snd w1) of
                Inl f \<Rightarrow> Inl f
              | Inr (r3, s3) \<Rightarrow>
                  Inr (fst w1, if fst w1 = 0 then s3\<lparr>storage_error := Some timeout_error\<rparr>
                               else s3))
        else Inr (1, snd w1))"
  using assms
  by (auto simp: mbox_update_locking_def mbox_lock_list_0 Let_def case_prod_beta
        split: sum.splits)

lemma spec_walk_success_calls:
  assumes "0 < fst (spec_walk cl lt mw lts 0 s)"
  shows "list_all (\<lambda>c. call_kind c = lt \<and> call_wait c = mw \<and> 0 < call_ret c)
           (new_calls s (snd (spec_walk cl lt mw lts 0 s)))"
proof -
  obtain new where n: "calls (snd (spec_walk cl lt mw lts 0 s)) = calls s @ new"
    "list_all (\<lambda>c. call_kind c = lt \<and> call_wait c = mw) new"
    "list_all (\<lambda>c. 0 < call_ret c) (butlast new)"
    "fst (spec_walk cl lt mw lts 0 s) = (if new = [] then 0 else call_ret (last new))"
    using spec_walk_calls [of cl lt mw lts 0 s] by blast
  from assms n(4) have ne: "new \<noteq> []" and l: "0 < call_ret (last new)"
    by (auto split: if_splits)
  from n(3) l have "list_all (\<lambda>c. 0 < call_ret c) (butlast new @ [last new])"
    by simp
  then have "list_all (\<lambda>c. 0 < call_ret c) new"
    by (simp only: append_butlast_last_id [OF ne])
  with n(2) have "list_all (\<lambda>c. call_kind c = lt \<and> call_wait c = mw \<and> 0 < call_ret c) new"
    by (auto simp: list_all_iff)
  moreover have "new_calls s (snd (spec_walk cl lt mw lts 0 s)) = new"
    using n(1) by (rule new_calls_append)
  ultimately show ?thesis by simp
qed

lemma mbox_unlock_files_calls:
  assumes "mbox_unlock_files cl cfg s = Inr (r, s')"
  shows "calls s' = calls s @ new_calls s s' \<and>
         list_all (\<lambda>c. call_kind c = F_UNLCK \<and> call_wait c = 0 \<and>
                       call_type c \<in> set (select_lock_types cfg F_UNLCK (ibox s))) (new_calls s s')"
proof -
  define t where "t = s\<lparr>ctx := (ctx s)\<lparr>lock_type := F_UNLCK\<rparr>\<rparr>"
  define w where "w = spec_walk cl F_UNLCK 0 (select_lock_types cfg F_UNLCK (ibox s)) 0 t"
  have c: "calls s' = calls (snd w)"
    using assms by (auto simp: mbox_unlock_files_def mbox_lock_list_0 w_def t_def case_prod_beta)
  have ct: "calls t = calls s" by (simp add: t_def)
  have cw: "calls (snd w) = calls t @ new_calls t (snd w)"
    unfolding w_def by (rule spec_walk_new_calls)
  have nc: "new_calls s s' = new_calls t (snd w)"
    using c ct by (simp add: new_calls_def)
  have "list_all (\<lambda>c. call_kind c = F_UNLCK \<and> call_wait c = 0 \<and>
                       call_type c \<in> set (select_lock_types cfg F_UNLCK (ibox s))) (new_calls t (snd w))"
    unfolding list_all_iff w_def using spec_walk_new_calls_kind by blast
  with c ct cw nc show ?thesis by simp
qed


text \<open>A walk asks the first backend of its list when that backend's flag differs from the wanted one.\<close>

lemma spec_walk_first_call:
  assumes "lock_status (ctx s) b \<noteq> (lt \<noteq> F_UNLCK)"
  shows "\<exists>r rest. new_calls s (snd (spec_walk cl lt mw (b # order) ret s)) = Call b lt mw r # rest"
proof -
  let ?s0 = "set_lock_status b (lt \<noteq> F_UNLCK) s"
  obtain r s' where inv: "invoke cl b lt mw ?s0 = (r, s')"
    by (cases "invoke cl b lt mw ?s0")
  have c: "calls s' = calls s @ [Call b lt mw r]"
    using invoke_calls [of cl b lt mw ?s0] inv by simp
  show ?thesis
  proof (cases "r \<le> 0")
    case True
    then have "spec_walk cl lt mw (b # order) ret s = (r, s')"
      using assms inv by simp
    then show ?thesis using c by (simp add: new_calls_def)
  next
    case False
    then have w: "spec_walk cl lt mw (b # order) ret s = spec_walk cl lt mw order r s'"
      using assms inv by simp
    have "calls (snd (spec_walk cl lt mw order r s')) =
            calls s' @ new_calls s' (snd (spec_walk cl lt mw order r s'))"
      by (rule spec_walk_new_calls)
    then have "calls (snd (spec_walk cl lt mw (b # order) ret s)) =
            calls s @ Call b lt mw r # new_calls s' (snd (spec_walk cl lt mw order r s'))"
      using w c by simp
    then show ?thesis by (simp add: new_calls_def)
  qed
qed

text \<open>
  When the backends leave the status table alone for requests of the walk's kind and every
  request of the walk succeeds, each backend of the list whose flag differed from the
  wanted one is asked exactly once, and no other backend is asked.
\<close>

lemma spec_walk_each_once:
  assumes "\<And>b ib c e w. lock_status (fst (snd (func cl b ib lt mw (c, e, w)))) = lock_status c"
    and "calls (snd (spec_walk cl lt mw lts ret s)) = calls s @ new"
    and "list_all (\<lambda>c. 0 < call_ret c) new"
  shows "length (filter (\<lambda>c. call_type c = ty) new) =
           (if ty \<in> set lts \<and> lock_status (ctx s) ty \<noteq> (lt \<noteq> F_UNLCK) then 1 else 0)"
  using assms(2,3)
proof (induction lts arbitrary: ret s new)
  case Nil
  then show ?case by simp
next
  case (Cons b order)
  show ?case
  proof (cases "lock_status (ctx s) b = (lt \<noteq> F_UNLCK)")
    case True
    then have "spec_walk cl lt mw (b # order) ret s = spec_walk cl lt mw order ret s" by simp
    with Cons.prems have "length (filter (\<lambda>c. call_type c = ty) new) =
           (if ty \<in> set order \<and> lock_status (ctx s) ty \<noteq> (lt \<noteq> F_UNLCK) then 1 else 0)"
      using Cons.IH [of ret s new] by simp
    with True show ?thesis by auto
  next
    case False
    let ?s0 = "set_lock_status b (lt \<noteq> F_UNLCK) s"
    obtain r s' where inv: "invoke cl b lt mw ?s0 = (r, s')"
      by (cases "invoke cl b lt mw ?s0")
    have c: "calls s' = calls s @ [Call b lt mw r]"
      using invoke_calls [of cl b lt mw ?s0] inv by simp
    have "lock_status (ctx (snd (invoke cl b lt mw ?s0))) = lock_status (ctx ?s0)"
      using assms(1) by (simp add: invoke_ctx)
    then have st: "lock_status (ctx s') = (lock_status (ctx s))(b := (lt \<noteq> F_UNLCK))"
      using inv by simp
    show ?thesis
    proof (cases "r \<le> 0")
      case True
      then have "spec_walk cl lt mw (b # order) ret s = (r, s')"
        using False inv by simp
      with Cons.prems(1) c have "new = [Call b lt mw r]" by simp
      with Cons.prems(2) True show ?thesis by simp
    next
      case pos: False
      then have w: "spec_walk cl lt mw (b # order) ret s = spec_walk cl lt mw order r s'"
        using False inv by simp
      define new' where "new' = new_calls s' (snd (spec_walk cl lt mw order r s'))"
      have n': "calls (snd (spec_walk cl lt mw order r s')) = calls s' @ new'"
        unfolding new'_def by (rule spec_walk_new_calls)
      with Cons.prems(1) w c have new: "new = Call b lt mw r # new'" by simp
      with Cons.prems(2) have "list_all (\<lambda>c. 0 < call_ret c) new'" by simp
      from Cons.IH [OF n' this]
      have "length (filter (\<lambda>c. call_type c = ty) new') =
           (if ty \<in> set order \<and> lock_status (ctx s') ty \<noteq> (lt \<noteq> F_UNLCK) then 1 else 0)" .
      with new st False show ?thesis by auto
    qed
  qed
qed

text \<open>The backend requests of \<^verbatim>\<open>mbox_unlock_files\<close> are those of a release walk without deadline.\<close>

lemma mbox_unlock_files_walk:
  assumes "mbox_unlock_files cl cfg s = Inr (r, s')"
  shows "calls s' = calls (snd (spec_walk cl F_UNLCK 0 (select_lock_types cfg F_UNLCK (ibox s)) 0
                                  (s\<lparr>ctx := (ctx s)\<lparr>lock_type := F_UNLCK\<rparr>\<rparr>)))"
  using assms by (auto simp: mbox_unlock_files_def mbox_lock_list_0 case_prod_beta)

text \<open>
  A walk over a list none of whose backends has the wanted flag yet: it asks the first
  backend of the list, in list order, and each backend once when the backends leave the
  status table alone and every request succeeds.
\<close>

lemma spec_walk_whole_list:
  assumes "\<forall>ty\<in>set lts. lock_status (ctx s) ty \<noteq> (lt \<noteq> F_UNLCK)" and "lts \<noteq> []"
  shows "\<exists>new. calls (snd (spec_walk cl lt mw lts ret s)) = calls s @ new \<and>
           new \<noteq> [] \<and> call_type (hd new) = hd lts \<and> subseq (map call_type new) lts \<and>
           list_all (\<lambda>c. call_kind c = lt \<and> call_wait c = mw) new \<and>
           list_all (\<lambda>c. 0 < call_ret c) (butlast new) \<and>
           ((\<forall>b ib c e w. lock_status (fst (snd (func cl b ib lt mw (c, e, w)))) = lock_status c) \<and>
            list_all (\<lambda>c. 0 < call_ret c) new \<longrightarrow>
              (\<forall>ty\<in>set lts. length (filter (\<lambda>c. call_type c = ty) new) = 1))"
proof -
  obtain new where n: "calls (snd (spec_walk cl lt mw lts ret s)) = calls s @ new"
    "subseq (map call_type new) lts"
    "list_all (\<lambda>c. call_kind c = lt \<and> call_wait c = mw) new"
    "list_all (\<lambda>c. 0 < call_ret c) (butlast new)"
    using spec_walk_calls [of cl lt mw lts ret s] by blast
  from assms(2) obtain b order where l: "lts = b # order" by (cases lts) simp_all
  with assms(1) have "lock_status (ctx s) b \<noteq> (lt \<noteq> F_UNLCK)" by simp
  from spec_walk_first_call [OF this, of cl mw order ret]
  obtain r rest where "new_calls s (snd (spec_walk cl lt mw lts ret s)) = Call b lt mw r # rest"
    unfolding l by blast
  moreover have "new_calls s (snd (spec_walk cl lt mw lts ret s)) = new"
    using n(1) by (rule new_calls_append)
  ultimately have "new = Call b lt mw r # rest" by simp
  then have h: "new \<noteq> []" "call_type (hd new) = hd lts" unfolding l by simp_all
  have e: "\<forall>ty\<in>set lts. length (filter (\<lambda>c. call_type c = ty) new) = 1"
    if k: "\<forall>b ib c e w. lock_status (fst (snd (func cl b ib lt mw (c, e, w)))) = lock_status c"
      and p: "list_all (\<lambda>c. 0 < call_ret c) new"
  proof
    fix ty assume ty: "ty \<in> set lts"
    have "length (filter (\<lambda>c. call_type c = ty) new) =
           (if ty \<in> set lts \<and> lock_status (ctx s) ty \<noteq> (lt \<noteq> F_UNLCK) then 1 else 0)"
      using k n(1) p by (intro spec_walk_each_once) blast+
    with ty assms(1) show "length (filter (\<lambda>c. call_type c = ty) new) = 1" by simp
  qed
  from n h e show ?thesis by blast
qed


text \<open>
  Claim C9. On an unlocked handle without references, let the acquisition of the first
  \<^verbatim>\<open>mbox_lock(F_RDLCK)\<close> succeed and leave the state \<open>s1\<close>. Then for \<open>1 \<le> N < 2 ^ 32\<close>:
  the backends are asked for the shared lock during that first call only, at least the
  first backend of the read list, in the order of the list and with success, and each
  backend of the read list exactly once when the backends leave the status table alone;
  after \<open>k\<close> locks, and after all \<open>N\<close> locks and \<open>j < N\<close> unlocks, the state is \<open>s1\<close> with
  only the shared counter changed (same world, same log of backend calls, shared level);
  and the \<open>N\<close>-th unlock leaves the handle unlocked and makes release requests without
  deadline, at least to the first backend of the read list, in the order of the list, and
  to each backend of the read list exactly once when the release requests leave the
  status table alone and succeed.
\<close>

theorem shared_locks_acquire_and_release_once:
  assumes "mbox_lock_type (ibox s) = F_UNLCK"
    and "mbox_shared_locks (ibox s) = 0" and "mbox_excl_locks (ibox s) = 0"
    and "even (mbox_lock_id (ibox s))"
    and "mbox_update_locking cl cfg F_RDLCK s = Inr (r, s1)" and "0 < r"
    and "1 \<le> N" and "N < 2 ^ 32"
  shows "(\<exists>acq. calls s1 = calls s @ acq \<and> acq \<noteq> [] \<and>
            call_type (hd acq) = hd (read_locks cfg) \<and>
            subseq (map call_type acq) (read_locks cfg) \<and>
            list_all (\<lambda>c. call_kind c = F_RDLCK \<and> 0 < call_ret c) acq \<and>
            (keeps_lock_status cl \<longrightarrow>
               (\<forall>ty\<in>set (read_locks cfg). length (filter (\<lambda>c. call_type c = ty) acq) = 1))) \<and>
         mbox_lock cl cfg F_RDLCK s =
           Inr (1, Some (mbox_lock_id (ibox s) + 2),
                s1\<lparr>ibox := shared_held (mbox_lock_id (ibox s) + 2) 1\<rparr>) \<and>
         (\<forall>k. 1 \<le> k \<and> k \<le> N \<longrightarrow>
            run_ops cl cfg (replicate k (Lock F_RDLCK)) s =
              Inr (s1\<lparr>ibox := shared_held (mbox_lock_id (ibox s) + 2) k\<rparr>)) \<and>
         (\<forall>j<N. run_ops cl cfg (replicate N (Lock F_RDLCK) @
                                 replicate j (Unlock (mbox_lock_id (ibox s) + 2))) s =
              Inr (s1\<lparr>ibox := shared_held (mbox_lock_id (ibox s) + 2) (N - j)\<rparr>)) \<and>
         (\<exists>s'. run_ops cl cfg (replicate N (Lock F_RDLCK) @
                                replicate N (Unlock (mbox_lock_id (ibox s) + 2))) s = Inr s' \<and>
               mbox_lock_type (ibox s') = F_UNLCK \<and> mbox_shared_locks (ibox s') = 0 \<and>
               (\<exists>rel. calls s' = calls s1 @ rel \<and> rel \<noteq> [] \<and>
                  call_type (hd rel) = hd (read_locks cfg) \<and>
                  subseq (map call_type rel) (read_locks cfg) \<and>
                  list_all (\<lambda>c. call_kind c = F_UNLCK \<and> call_wait c = 0) rel \<and>
                  list_all (\<lambda>c. 0 < call_ret c) (butlast rel) \<and>
                  (release_keeps_status cl \<and> list_all (\<lambda>c. 0 < call_ret c) rel \<longrightarrow>
                     (\<forall>ty\<in>set (read_locks cfg).
                        length (filter (\<lambda>c. call_type c = ty) rel) = 1))))"
proof -
  define e where "e = mbox_lock_id (ibox s) + 2"
  have ev: "even e" using assms(4) by (simp add: e_def)
  have ib: "ibox s = \<lparr>mbox_lock_type = F_UNLCK, mbox_lock_id = mbox_lock_id (ibox s),
                      mbox_shared_locks = 0, mbox_excl_locks = 0\<rparr>"
    using assms(1-3) by (cases "ibox s") simp
  have locks: "run_ops cl cfg (replicate (Suc k) (Lock F_RDLCK)) s =
                 Inr (s1\<lparr>ibox := shared_held e (Suc k)\<rparr>)" for k
    unfolding e_def by (rule run_locks_shared [OF ib assms(5,6)])
  have unlocks: "run_ops cl cfg (replicate N (Lock F_RDLCK) @ replicate j (Unlock e)) s =
              Inr (s1\<lparr>ibox := shared_held e (N - j)\<rparr>)" if "j < N" for j
  proof -
    from assms(7) obtain n where n: "N = Suc n" by (cases N) simp_all
    have "run_ops cl cfg (replicate N (Lock F_RDLCK)) s = Inr (s1\<lparr>ibox := shared_held e N\<rparr>)"
      unfolding n by (rule locks)
    then show ?thesis
      using run_unlocks_shared [OF ev that assms(8), of cl cfg s1]
      by (simp only: run_ops_append sum.case)
  qed
  have c1: "\<exists>acq. calls s1 = calls s @ acq \<and> acq \<noteq> [] \<and>
            call_type (hd acq) = hd (read_locks cfg) \<and>
            subseq (map call_type acq) (read_locks cfg) \<and>
            list_all (\<lambda>c. call_kind c = F_RDLCK \<and> 0 < call_ret c) acq \<and>
            (keeps_lock_status cl \<longrightarrow>
               (\<forall>ty\<in>set (read_locks cfg). length (filter (\<lambda>c. call_type c = ty) acq) = 1))"
    and rl: "read_locks cfg \<noteq> []"
  proof -
    define t where "t = s\<lparr>os := index_storage_lock_notify_reset cl (os s),
                 ibox := (ibox s)\<lparr>mbox_lock_type := F_RDLCK\<rparr>,
                 ctx := zero_ctx\<lparr>lock_type := F_RDLCK\<rparr>\<rparr>"
    define w where "w = spec_walk cl F_RDLCK
                (time_now cl (index_storage_lock_notify_reset cl (os s)) + lock_timeout cfg)
                (select_lock_types cfg F_RDLCK ((ibox s)\<lparr>mbox_lock_type := F_RDLCK\<rparr>)) 0 t"
    have nw: "mbox_lock_type (ibox s) \<noteq> F_WRLCK" using assms(1) by simp
    obtain r3 s3 where u3: "mbox_unlock_files cl cfg (snd w) = Inr (r3, s3)"
      using mbox_unlock_files_result [of cl cfg "snd w"] by blast
    have d: "mbox_update_locking cl cfg F_RDLCK s =
        (if fst w \<le> 0
         then Inr (fst w, if fst w = 0 then s3\<lparr>storage_error := Some timeout_error\<rparr> else s3)
         else Inr (1, snd w))"
      using mbox_update_locking_acquire [OF nw, of cl cfg F_RDLCK] u3
      unfolding w_def t_def by (simp only: Let_def sum.case prod.case)
    from d assms(5,6) have p: "0 < fst w" and s1: "s1 = snd w"
      by (auto split: if_splits)
    have L: "select_lock_types cfg F_RDLCK ((ibox s)\<lparr>mbox_lock_type := F_RDLCK\<rparr>) = read_locks cfg"
      by (simp add: select_lock_types_def)
    have ne: "read_locks cfg \<noteq> []"
    proof
      assume "read_locks cfg = []"
      then have "fst w = 0" by (simp add: w_def L)
      with p show False by simp
    qed
    have fl: "\<forall>ty\<in>set (read_locks cfg). lock_status (ctx t) ty \<noteq> (F_RDLCK \<noteq> F_UNLCK)"
      by (simp add: t_def zero_ctx_def)
    obtain acq where a: "calls (snd w) = calls t @ acq" "acq \<noteq> []"
      "call_type (hd acq) = hd (read_locks cfg)" "subseq (map call_type acq) (read_locks cfg)"
      "(\<forall>b ib c e w. lock_status (fst (snd (func cl b ib F_RDLCK
            (time_now cl (index_storage_lock_notify_reset cl (os s)) + lock_timeout cfg) (c, e, w)))) =
          lock_status c) \<and>
       list_all (\<lambda>c. 0 < call_ret c) acq \<longrightarrow>
         (\<forall>ty\<in>set (read_locks cfg). length (filter (\<lambda>c. call_type c = ty) acq) = 1)"
      using spec_walk_whole_list [OF fl ne, of cl
          "time_now cl (index_storage_lock_notify_reset cl (os s)) + lock_timeout cfg" 0]
      unfolding w_def L by blast
    from a(1) have na: "new_calls t (snd w) = acq" by (rule new_calls_append)
    have "list_all (\<lambda>c. call_kind c = F_RDLCK \<and>
              call_wait c = time_now cl (index_storage_lock_notify_reset cl (os s)) + lock_timeout cfg \<and>
              0 < call_ret c) (new_calls t (snd w))"
      using p unfolding w_def by (rule spec_walk_success_calls)
    then have ok: "list_all (\<lambda>c. call_kind c = F_RDLCK \<and> 0 < call_ret c) acq"
      and pos: "list_all (\<lambda>c. 0 < call_ret c) acq"
      unfolding na by (simp_all add: list_all_iff)
    have ex: "keeps_lock_status cl \<longrightarrow>
               (\<forall>ty\<in>set (read_locks cfg). length (filter (\<lambda>c. call_type c = ty) acq) = 1)"
    proof
      assume "keeps_lock_status cl"
      then have "\<forall>b ib c e w. lock_status (fst (snd (func cl b ib F_RDLCK
            (time_now cl (index_storage_lock_notify_reset cl (os s)) + lock_timeout cfg) (c, e, w)))) =
          lock_status c"
        unfolding keeps_lock_status_def by blast
      with a(5) pos
      show "\<forall>ty\<in>set (read_locks cfg). length (filter (\<lambda>c. call_type c = ty) acq) = 1"
        by blast
    qed
    have "calls t = calls s" by (simp add: t_def)
    with a(1) s1 have "calls s1 = calls s @ acq" by simp
    with a(2,3,4) ok ex
    show "\<exists>acq. calls s1 = calls s @ acq \<and> acq \<noteq> [] \<and>
            call_type (hd acq) = hd (read_locks cfg) \<and>
            subseq (map call_type acq) (read_locks cfg) \<and>
            list_all (\<lambda>c. call_kind c = F_RDLCK \<and> 0 < call_ret c) acq \<and>
            (keeps_lock_status cl \<longrightarrow>
               (\<forall>ty\<in>set (read_locks cfg). length (filter (\<lambda>c. call_type c = ty) acq) = 1))"
      by blast
    show "read_locks cfg \<noteq> []" by (rule ne)
  qed
  have c2: "mbox_lock cl cfg F_RDLCK s =
           Inr (1, Some e, s1\<lparr>ibox := shared_held e 1\<rparr>)"
    using mbox_lock_first_shared [OF ib assms(5,6)] by (simp add: e_def shared_held_def)
  have c3: "\<forall>k. 1 \<le> k \<and> k \<le> N \<longrightarrow>
            run_ops cl cfg (replicate k (Lock F_RDLCK)) s = Inr (s1\<lparr>ibox := shared_held e k\<rparr>)"
  proof (intro allI impI)
    fix k assume "1 \<le> k \<and> k \<le> N"
    then obtain k' where "k = Suc k'" by (cases k) simp_all
    then show "run_ops cl cfg (replicate k (Lock F_RDLCK)) s = Inr (s1\<lparr>ibox := shared_held e k\<rparr>)"
      using locks [of k'] by simp
  qed
  have c4: "\<forall>j<N. run_ops cl cfg (replicate N (Lock F_RDLCK) @ replicate j (Unlock e)) s =
              Inr (s1\<lparr>ibox := shared_held e (N - j)\<rparr>)"
    using unlocks by blast
  have c5: "\<exists>s'. run_ops cl cfg (replicate N (Lock F_RDLCK) @ replicate N (Unlock e)) s = Inr s' \<and>
               mbox_lock_type (ibox s') = F_UNLCK \<and> mbox_shared_locks (ibox s') = 0 \<and>
               (\<exists>rel. calls s' = calls s1 @ rel \<and> rel \<noteq> [] \<and>
                  call_type (hd rel) = hd (read_locks cfg) \<and>
                  subseq (map call_type rel) (read_locks cfg) \<and>
                  list_all (\<lambda>c. call_kind c = F_UNLCK \<and> call_wait c = 0) rel \<and>
                  list_all (\<lambda>c. 0 < call_ret c) (butlast rel) \<and>
                  (release_keeps_status cl \<and> list_all (\<lambda>c. 0 < call_ret c) rel \<longrightarrow>
                     (\<forall>ty\<in>set (read_locks cfg).
                        length (filter (\<lambda>c. call_type c = ty) rel) = 1)))"
  proof -
    from assms(7) obtain n where n: "N = Suc n" by (cases N) simp_all
    define t where "t = s1\<lparr>ibox := shared_held e 1\<rparr>"
    define t0 where "t0 = t\<lparr>ibox := (ibox t)\<lparr>mbox_shared_locks := 0\<rparr>\<rparr>"
    define t1 where "t1 = t0\<lparr>ctx := zero_ctx\<lparr>lock_status := (\<lambda>_. True)\<rparr>\<rparr>"
    have "replicate N (Unlock e) = replicate n (Unlock e) @ [Unlock e]"
      unfolding n by (simp add: replicate_append_same)
    then have "run_ops cl cfg (replicate N (Lock F_RDLCK) @ replicate N (Unlock e)) s =
          run_ops cl cfg ((replicate N (Lock F_RDLCK) @ replicate n (Unlock e)) @ [Unlock e]) s"
      by simp
    also have "\<dots> = run_ops cl cfg [Unlock e] t"
      using unlocks [of n] n unfolding t_def by (simp only: run_ops_append [of _ _ _ "[Unlock e]"] sum.case) simp
    finally have ru: "run_ops cl cfg (replicate N (Lock F_RDLCK) @ replicate N (Unlock e)) s =
          run_ops cl cfg [Unlock e] t" .
    have v: "mbox_lock_id (ibox t) = e AND NOT 1"
      using even_and_not_1 [OF ev] by (simp add: t_def shared_held_def)
    have b: "e AND 1 = 0" using ev by (simp only: and_1_even)
    have "mbox_unlock cl cfg e t = all_locks_gone cl cfg t0"
      unfolding t0_def
      by (rule mbox_unlock_last_reference(2) [OF v b]) (simp_all add: t_def shared_held_def)
    then have mu: "mbox_unlock cl cfg e t = mbox_unlock_files cl cfg t1"
      by (simp add: all_locks_gone_def t1_def)
    obtain r' s' where uf: "mbox_unlock_files cl cfg t1 = Inr (r', s')"
      and i': "ibox s' = (ibox t1)\<lparr>mbox_lock_id := mbox_lock_id (ibox t1) + 2,
                                   mbox_lock_type := F_UNLCK\<rparr>"
      using mbox_unlock_files_result [of cl cfg t1] by blast
    have "run_ops cl cfg [Unlock e] t = Inr s'" using mu uf by simp
    with ru have 1: "run_ops cl cfg (replicate N (Lock F_RDLCK) @ replicate N (Unlock e)) s = Inr s'"
      by simp
    have 2: "mbox_lock_type (ibox s') = F_UNLCK \<and> mbox_shared_locks (ibox s') = 0"
      using i' by (simp add: t1_def t0_def)
    define u where "u = t1\<lparr>ctx := (ctx t1)\<lparr>lock_type := F_UNLCK\<rparr>\<rparr>"
    have L: "select_lock_types cfg F_UNLCK (ibox t1) = read_locks cfg"
      by (simp add: select_lock_types_def t1_def t0_def t_def shared_held_def)
    have fl: "\<forall>ty\<in>set (read_locks cfg). lock_status (ctx u) ty \<noteq> (F_UNLCK \<noteq> F_UNLCK)"
      by (simp add: u_def t1_def)
    obtain rel where r: "calls (snd (spec_walk cl F_UNLCK 0 (read_locks cfg) 0 u)) = calls u @ rel"
      "rel \<noteq> []" "call_type (hd rel) = hd (read_locks cfg)"
      "subseq (map call_type rel) (read_locks cfg)"
      "list_all (\<lambda>c. call_kind c = F_UNLCK \<and> call_wait c = 0) rel"
      "list_all (\<lambda>c. 0 < call_ret c) (butlast rel)"
      "(\<forall>b ib c e w. lock_status (fst (snd (func cl b ib F_UNLCK 0 (c, e, w)))) = lock_status c) \<and>
       list_all (\<lambda>c. 0 < call_ret c) rel \<longrightarrow>
         (\<forall>ty\<in>set (read_locks cfg). length (filter (\<lambda>c. call_type c = ty) rel) = 1)"
      using spec_walk_whole_list [OF fl rl, of cl 0 0] by blast
    have ex: "release_keeps_status cl \<and> list_all (\<lambda>c. 0 < call_ret c) rel \<longrightarrow>
               (\<forall>ty\<in>set (read_locks cfg). length (filter (\<lambda>c. call_type c = ty) rel) = 1)"
    proof
      assume h: "release_keeps_status cl \<and> list_all (\<lambda>c. 0 < call_ret c) rel"
      then have "\<forall>b ib c e w. lock_status (fst (snd (func cl b ib F_UNLCK 0 (c, e, w)))) = lock_status c"
        unfolding release_keeps_status_def by blast
      with r(7) h
      show "\<forall>ty\<in>set (read_locks cfg). length (filter (\<lambda>c. call_type c = ty) rel) = 1"
        by blast
    qed
    have "calls s' = calls (snd (spec_walk cl F_UNLCK 0 (read_locks cfg) 0 u))"
      using mbox_unlock_files_walk [OF uf] unfolding L u_def .
    moreover have "calls u = calls s1" by (simp add: u_def t1_def t0_def t_def)
    ultimately have "calls s' = calls s1 @ rel" using r(1) by simp
    with r(2-6) ex
    have 3: "\<exists>rel. calls s' = calls s1 @ rel \<and> rel \<noteq> [] \<and>
                  call_type (hd rel) = hd (read_locks cfg) \<and>
                  subseq (map call_type rel) (read_locks cfg) \<and>
                  list_all (\<lambda>c. call_kind c = F_UNLCK \<and> call_wait c = 0) rel \<and>
                  list_all (\<lambda>c. 0 < call_ret c) (butlast rel) \<and>
                  (release_keeps_status cl \<and> list_all (\<lambda>c. 0 < call_ret c) rel \<longrightarrow>
                     (\<forall>ty\<in>set (read_locks cfg).
                        length (filter (\<lambda>c. call_type c = ty) rel) = 1))"
      by blast
    from 1 2 3 show ?thesis by blast
  qed
  from c1 c2 c3 c4 c5 show ?thesis unfolding e_def by blast
qed


theorem shared_locks_acquire_and_release_once_witness:
  "keeps_lock_status (table_backends (\<lambda>ty lt. 1)) \<and>
   release_keeps_status (table_backends (\<lambda>ty lt. 1)) \<and>
   (\<exists>s1 s'. mbox_update_locking (table_backends (\<lambda>ty lt. 1))
                (default_settings\<lparr>read_locks := [MBOX_LOCK_FCNTL, MBOX_LOCK_FLOCK],
                   write_locks := [MBOX_LOCK_FCNTL, MBOX_LOCK_FLOCK, MBOX_LOCK_DOTLOCK]\<rparr>)
                F_RDLCK (fresh_mailbox 0 ()) = Inr (1, s1) \<and>
     calls s1 = [Call MBOX_LOCK_FCNTL F_RDLCK 1600 1, Call MBOX_LOCK_FLOCK F_RDLCK 1600 1] \<and>
     run_ops (table_backends (\<lambda>ty lt. 1))
        (default_settings\<lparr>read_locks := [MBOX_LOCK_FCNTL, MBOX_LOCK_FLOCK],
           write_locks := [MBOX_LOCK_FCNTL, MBOX_LOCK_FLOCK, MBOX_LOCK_DOTLOCK]\<rparr>)
        (replicate 3 (Lock F_RDLCK) @ replicate 2 (Unlock 2)) (fresh_mailbox 0 ()) =
       Inr (s1\<lparr>ibox := shared_held 2 1\<rparr>) \<and>
     run_ops (table_backends (\<lambda>ty lt. 1))
        (default_settings\<lparr>read_locks := [MBOX_LOCK_FCNTL, MBOX_LOCK_FLOCK],
           write_locks := [MBOX_LOCK_FCNTL, MBOX_LOCK_FLOCK, MBOX_LOCK_DOTLOCK]\<rparr>)
        (replicate 3 (Lock F_RDLCK) @ replicate 3 (Unlock 2)) (fresh_mailbox 0 ()) = Inr s' \<and>
     mbox_lock_type (ibox s') = F_UNLCK \<and>
     calls s' = [Call MBOX_LOCK_FCNTL F_RDLCK 1600 1, Call MBOX_LOCK_FLOCK F_RDLCK 1600 1,
                 Call MBOX_LOCK_FCNTL F_UNLCK 0 1, Call MBOX_LOCK_FLOCK F_UNLCK 0 1])"
proof -
  let ?cl = "table_backends (\<lambda>ty lt. 1) :: unit collaborators"
  let ?cfg = "default_settings\<lparr>read_locks := [MBOX_LOCK_FCNTL, MBOX_LOCK_FLOCK],
                write_locks := [MBOX_LOCK_FCNTL, MBOX_LOCK_FLOCK, MBOX_LOCK_DOTLOCK]\<rparr>"
  let ?s = "fresh_mailbox 0 () :: unit mailbox"
  have k1: "keeps_lock_status ?cl" by (rule table_backends_keeps_lock_status)
  have k2: "release_keeps_status ?cl" by (rule table_backends_release_keeps_status)
  have "map_sum id (\<lambda>(r, s1). (r, calls s1)) (mbox_update_locking ?cl ?cfg F_RDLCK ?s) =
        Inr (1, [Call MBOX_LOCK_FCNTL F_RDLCK 1600 1, Call MBOX_LOCK_FLOCK F_RDLCK 1600 1])"
    by (simp add: run_simps)
  then obtain s1 where u: "mbox_update_locking ?cl ?cfg F_RDLCK ?s = Inr (1, s1)"
    and c: "calls s1 = [Call MBOX_LOCK_FCNTL F_RDLCK 1600 1, Call MBOX_LOCK_FLOCK F_RDLCK 1600 1]"
    by (cases "mbox_update_locking ?cl ?cfg F_RDLCK ?s") auto
  have h1: "mbox_lock_type (ibox ?s) = F_UNLCK" and h2: "mbox_shared_locks (ibox ?s) = 0"
    and h3: "mbox_excl_locks (ibox ?s) = 0" and h4: "even (mbox_lock_id (ibox ?s))"
    by (simp_all add: fresh_mailbox_def)
  have h6: "(0 :: int) < 1" and h7: "(1 :: nat) \<le> 3" and h8: "(3 :: nat) < 2 ^ 32" by simp_all
  note t = shared_locks_acquire_and_release_once [OF h1 h2 h3 h4 u h6 h7 h8]
  have e: "mbox_lock_id (ibox ?s) + 2 = 2" by (simp add: fresh_mailbox_def)
  have rl: "read_locks ?cfg = [MBOX_LOCK_FCNTL, MBOX_LOCK_FLOCK]" by simp
  from t have "run_ops ?cl ?cfg
        (replicate 3 (Lock F_RDLCK) @ replicate 2 (Unlock (mbox_lock_id (ibox ?s) + 2))) ?s =
       Inr (s1\<lparr>ibox := shared_held (mbox_lock_id (ibox ?s) + 2) (3 - 2)\<rparr>)"
    by simp
  then have a: "run_ops ?cl ?cfg
        (replicate 3 (Lock F_RDLCK) @ replicate 2 (Unlock 2)) ?s = Inr (s1\<lparr>ibox := shared_held 2 1\<rparr>)"
    unfolding e by simp
  from t obtain s' rel where "run_ops ?cl ?cfg
        (replicate 3 (Lock F_RDLCK) @ replicate 3 (Unlock (mbox_lock_id (ibox ?s) + 2))) ?s = Inr s'"
    and l: "mbox_lock_type (ibox s') = F_UNLCK"
    and r: "calls s' = calls s1 @ rel"
    by blast
  then have b: "run_ops ?cl ?cfg
        (replicate 3 (Lock F_RDLCK) @ replicate 3 (Unlock 2)) ?s = Inr s'"
    unfolding e by simp
  have r3: "replicate 3 x = [x, x, x]" for x :: operation
    by (simp add: numeral_3_eq_3)
  have "map_sum id calls (run_ops ?cl ?cfg
        (replicate 3 (Lock F_RDLCK) @ replicate 3 (Unlock 2)) ?s) =
     Inr [Call MBOX_LOCK_FCNTL F_RDLCK 1600 1, Call MBOX_LOCK_FLOCK F_RDLCK 1600 1,
          Call MBOX_LOCK_FCNTL F_UNLCK 0 1, Call MBOX_LOCK_FLOCK F_UNLCK 0 1]"
    unfolding r3 by (simp add: run_simps)
  with b have cs: "calls s' = [Call MBOX_LOCK_FCNTL F_RDLCK 1600 1, Call MBOX_LOCK_FLOCK F_RDLCK 1600 1,
                 Call MBOX_LOCK_FCNTL F_UNLCK 0 1, Call MBOX_LOCK_FLOCK F_UNLCK 0 1]"
    by simp
  from k1 k2 u c a b l cs show ?thesis by blast
qed

section \<open>Unwinding a failed acquisition\<close>

lemma keeps_lock_status_release: "keeps_lock_status cl \<Longrightarrow> release_keeps_status cl"
  by (simp add: keeps_lock_status_def release_keeps_status_def)

lemma invoke_keeps_status:
  assumes "keeps_lock_status cl"
  shows "lock_status (ctx (snd (invoke cl ty lt mw s))) = lock_status (ctx s)"
proof -
  from assms
  have "lock_status (fst (snd (func cl ty (ibox s) lt mw (ctx s, storage_error s, os s)))) =
               lock_status (ctx s)"
    unfolding keeps_lock_status_def by blast
  then show ?thesis by (simp add: invoke_ctx)
qed

text \<open>After an acquiring walk the flag of every backend it asked is set.\<close>

lemma spec_walk_acquire_flags:
  assumes "keeps_lock_status cl" and "lt \<noteq> F_UNLCK"
  shows "\<exists>new. calls (snd (spec_walk cl lt mw lts ret s)) = calls s @ new \<and>
           (\<forall>c\<in>set new. lock_status (ctx (snd (spec_walk cl lt mw lts ret s))) (call_type c)) \<and>
           (\<forall>ty. lock_status (ctx s) ty
                   \<longrightarrow> lock_status (ctx (snd (spec_walk cl lt mw lts ret s))) ty)"
proof (induction lts arbitrary: ret s)
  case Nil
  show ?case by simp
next
  case (Cons b order)
  show ?case
  proof (cases "lock_status (ctx s) b")
    case True
    then show ?thesis using Cons.IH [of ret s] assms(2) by simp
  next
    case False
    let ?s0 = "set_lock_status b True s"
    obtain r s' where inv: "invoke cl b lt mw ?s0 = (r, s')"
      by (cases "invoke cl b lt mw ?s0")
    have c: "calls s' = calls s @ [Call b lt mw r]"
      using invoke_calls [of cl b lt mw ?s0] inv by simp
    have st: "lock_status (ctx s') = (lock_status (ctx s))(b := True)"
      using invoke_keeps_status [OF assms(1), of b lt mw ?s0] inv by simp
    show ?thesis
    proof (cases "r \<le> 0")
      case True
      with False inv c st assms(2) show ?thesis
        by (intro exI [of _ "[Call b lt mw r]"]) simp
    next
      case pos: False
      let ?W = "spec_walk cl lt mw order r s'"
      obtain new where n: "calls (snd ?W) = calls s' @ new"
        "\<forall>c\<in>set new. lock_status (ctx (snd ?W)) (call_type c)"
        "\<forall>ty. lock_status (ctx s') ty \<longrightarrow> lock_status (ctx (snd ?W)) ty"
        using Cons.IH [of r s'] by blast
      have w: "spec_walk cl lt mw (b # order) ret s = ?W"
        using False inv pos assms(2) by simp
      have "\<forall>c\<in>set (Call b lt mw r # new). lock_status (ctx (snd ?W)) (call_type c)"
        using n(2,3) st by simp
      moreover have "\<forall>ty. lock_status (ctx s) ty \<longrightarrow> lock_status (ctx (snd ?W)) ty"
        using n(3) st by simp
      moreover have "calls (snd ?W) = calls s @ (Call b lt mw r # new)"
        using n(1) c by simp
      ultimately show ?thesis unfolding w by blast
    qed
  qed
qed

text \<open>A release walk whose requests all succeed asks every backend of the list whose flag is set.\<close>

lemma spec_walk_release_all:
  assumes "release_keeps_status cl" and "release_succeeds cl"
  shows "\<exists>new. calls (snd (spec_walk cl F_UNLCK mw lts ret s)) = calls s @ new \<and>
           (\<forall>ty\<in>set lts. lock_status (ctx s) ty \<longrightarrow> ty \<in> call_type ` set new)"
proof (induction lts arbitrary: ret s)
  case Nil
  show ?case by simp
next
  case (Cons b order)
  show ?case
  proof (cases "lock_status (ctx s) b")
    case False
    obtain new where n: "calls (snd (spec_walk cl F_UNLCK mw order ret s)) = calls s @ new"
      "\<forall>ty\<in>set order. lock_status (ctx s) ty \<longrightarrow> ty \<in> call_type ` set new"
      using Cons.IH [of ret s] by blast
    then show ?thesis using False by (intro exI [of _ new]) auto
  next
    case True
    let ?s0 = "set_lock_status b False s"
    obtain r s' where inv: "invoke cl b F_UNLCK mw ?s0 = (r, s')"
      by (cases "invoke cl b F_UNLCK mw ?s0")
    have c: "calls s' = calls s @ [Call b F_UNLCK mw r]"
      using invoke_calls [of cl b F_UNLCK mw ?s0] inv by simp
    have st: "lock_status (ctx s') = (lock_status (ctx s))(b := False)"
      using invoke_release_status [OF assms(1), of b mw ?s0] inv by simp
    have "0 < fst (invoke cl b F_UNLCK mw ?s0)"
      using assms(2) unfolding release_succeeds_def invoke_fst by blast
    with inv have pos: "0 < r" by simp
    let ?W = "spec_walk cl F_UNLCK mw order r s'"
    have w: "spec_walk cl F_UNLCK mw (b # order) ret s = ?W"
      using True inv pos by simp
    obtain new where n: "calls (snd ?W) = calls s' @ new"
      "\<forall>ty\<in>set order. lock_status (ctx s') ty \<longrightarrow> ty \<in> call_type ` set new"
      using Cons.IH [of r s'] by blast
    have "calls (snd ?W) = calls s @ (Call b F_UNLCK mw r # new)"
      using n(1) c by simp
    moreover have "\<forall>ty\<in>set (b # order). lock_status (ctx s) ty
                     \<longrightarrow> ty \<in> call_type ` set (Call b F_UNLCK mw r # new)"
    proof (intro ballI impI)
      fix ty assume ty: "ty \<in> set (b # order)" "lock_status (ctx s) ty"
      show "ty \<in> call_type ` set (Call b F_UNLCK mw r # new)"
      proof (cases "ty = b")
        case True
        then show ?thesis by simp
      next
        case False
        with ty st have "ty \<in> set order" "lock_status (ctx s') ty" by simp_all
        with n(2) show ?thesis by simp
      qed
    qed
    ultimately show ?thesis unfolding w by blast
  qed
qed


lemma mbox_unlock_files_releases_all:
  assumes "release_keeps_status cl" and "release_succeeds cl"
    and "mbox_unlock_files cl cfg s = Inr (r, s')"
  shows "\<forall>ty\<in>set (select_lock_types cfg F_UNLCK (ibox s)).
           lock_status (ctx s) ty \<longrightarrow> ty \<in> call_type ` set (new_calls s s')"
proof -
  define t where "t = s\<lparr>ctx := (ctx s)\<lparr>lock_type := F_UNLCK\<rparr>\<rparr>"
  define w where "w = spec_walk cl F_UNLCK 0 (select_lock_types cfg F_UNLCK (ibox s)) 0 t"
  have c: "calls s' = calls (snd w)"
    using assms(3) by (auto simp: mbox_unlock_files_def mbox_lock_list_0 w_def t_def case_prod_beta)
  have ct: "calls t = calls s" and ft: "lock_status (ctx t) = lock_status (ctx s)"
    by (simp_all add: t_def)
  obtain new where n: "calls (snd w) = calls t @ new"
    "\<forall>ty\<in>set (select_lock_types cfg F_UNLCK (ibox s)). lock_status (ctx t) ty
        \<longrightarrow> ty \<in> call_type ` set new"
    using spec_walk_release_all [OF assms(1,2), of 0 "select_lock_types cfg F_UNLCK (ibox s)" 0 t]
    unfolding w_def by blast
  have "new_calls s s' = new" using c ct n(1) by (simp add: new_calls_def)
  with n(2) ft show ?thesis by simp
qed

lemma mbox_lock_failed:
  assumes "mbox_lock_type (ibox s) = F_UNLCK"
    and "mbox_lock cl cfg lt s = Inr (r, tok, s')" and "r \<le> 0"
  shows "mbox_update_locking cl cfg lt s = Inr (r, s') \<and> lt \<noteq> F_UNLCK \<and> tok = None"
  using assms by (auto simp: mbox_lock_def split: if_splits sum.splits)

text \<open>
  What holds of every \<^verbatim>\<open>mbox_lock\<close> on an unlocked handle that returns 0 or -1: no token
  is issued, the handle is back at \<^verbatim>\<open>F_UNLCK\<close> with its counters unchanged, a result of 0
  leaves the error "Timeout while waiting for lock", and the backend calls of the attempt
  are the acquiring requests, ended by the one that returned the result, followed by
  release requests. With backends that leave the status table alone and whose releases
  succeed, every backend that was asked to acquire is asked to release.
\<close>

lemma mbox_lock_failed_unwinds:
  assumes "mbox_lock_type (ibox s) = F_UNLCK"
    and "mbox_lock cl cfg lt s = Inr (r, tok, s')" and "r \<le> 0"
  shows "tok = None \<and> mbox_lock_type (ibox s') = F_UNLCK \<and>
         mbox_shared_locks (ibox s') = mbox_shared_locks (ibox s) \<and>
         mbox_excl_locks (ibox s') = mbox_excl_locks (ibox s) \<and>
         (r = 0 \<longrightarrow> storage_error s' = Some timeout_error) \<and>
         (\<exists>acq rel. new_calls s s' = acq @ rel \<and>
            list_all (\<lambda>c. call_kind c = lt) acq \<and>
            list_all (\<lambda>c. call_kind c = F_UNLCK) rel \<and>
            r = (if acq = [] then 0 else call_ret (last acq)) \<and>
            (keeps_lock_status cl \<and> release_succeeds cl \<longrightarrow>
               call_type ` set acq \<subseteq> call_type ` set rel))"
proof -
  from mbox_lock_failed [OF assms(1,2,3)]
  have ul: "mbox_update_locking cl cfg lt s = Inr (r, s')" and lt: "lt \<noteq> F_UNLCK"
    and tok: "tok = None" by simp_all
  from mbox_lock_result [OF assms(2)] assms(1,3)
  have ib: "ibox s' = (ibox s)\<lparr>mbox_lock_id := mbox_lock_id (ibox s) + 2, mbox_lock_type := F_UNLCK\<rparr>"
    by simp
  define mw where "mw = time_now cl (index_storage_lock_notify_reset cl (os s)) + lock_timeout cfg"
  define L where "L = select_lock_types cfg lt ((ibox s)\<lparr>mbox_lock_type := lt\<rparr>)"
  define t where "t = s\<lparr>os := index_storage_lock_notify_reset cl (os s),
                 ibox := (ibox s)\<lparr>mbox_lock_type := lt\<rparr>,
                 ctx := zero_ctx\<lparr>lock_type := lt\<rparr>\<rparr>"
  define w where "w = spec_walk cl lt mw L 0 t"
  have nw: "mbox_lock_type (ibox s) \<noteq> F_WRLCK" using assms(1) by simp
  obtain r3 s3 where u3: "mbox_unlock_files cl cfg (snd w) = Inr (r3, s3)"
    using mbox_unlock_files_result [of cl cfg "snd w"] by blast
  have d: "mbox_update_locking cl cfg lt s =
      (if fst w \<le> 0
       then Inr (fst w, if fst w = 0 then s3\<lparr>storage_error := Some timeout_error\<rparr> else s3)
       else Inr (1, snd w))"
    using mbox_update_locking_acquire [OF nw, of cl cfg lt] u3
    unfolding w_def t_def mw_def L_def by (simp only: Let_def sum.case prod.case)
  from d ul assms(3) have rw: "fst w = r"
    and s': "s' = (if r = 0 then s3\<lparr>storage_error := Some timeout_error\<rparr> else s3)"
    by (auto split: if_splits)
  have ct: "calls t = calls s" by (simp add: t_def)
  obtain acq where a: "calls (snd w) = calls t @ acq"
    "list_all (\<lambda>c. call_kind c = lt \<and> call_wait c = mw) acq"
    "fst w = (if acq = [] then 0 else call_ret (last acq))"
    "subseq (map call_type acq) L"
    using spec_walk_calls [of cl lt mw L 0 t] unfolding w_def by blast
  have iw: "ibox (snd w) = (ibox s)\<lparr>mbox_lock_type := lt\<rparr>"
    using spec_walk_ibox [of cl lt mw L 0 t] by (simp add: w_def t_def)
  have Lw: "select_lock_types cfg F_UNLCK (ibox (snd w)) = L"
    using lt by (cases lt) (simp_all add: iw L_def select_lock_types_def)
  define rel where "rel = new_calls (snd w) s3"
  from mbox_unlock_files_calls [OF u3]
  have r1: "calls s3 = calls (snd w) @ rel" and r2: "list_all (\<lambda>c. call_kind c = F_UNLCK) rel"
    by (simp_all add: rel_def list_all_iff)
  have sub: "keeps_lock_status cl \<and> release_succeeds cl \<longrightarrow>
             call_type ` set acq \<subseteq> call_type ` set rel"
  proof (intro impI subsetI, elim conjE)
    fix ty
    assume k: "keeps_lock_status cl" and rs: "release_succeeds cl"
      and "ty \<in> call_type ` set acq"
    then obtain c where c: "c \<in> set acq" "ty = call_type c" by blast
    obtain acq' where a': "calls (snd w) = calls t @ acq'"
      "\<forall>c\<in>set acq'. lock_status (ctx (snd w)) (call_type c)"
      using spec_walk_acquire_flags [OF k lt, of mw L 0 t] unfolding w_def by blast
    from a(1) a'(1) have "acq' = acq" by simp
    with a'(2) have fl: "\<forall>c\<in>set acq. lock_status (ctx (snd w)) (call_type c)" by simp
    from mbox_unlock_files_releases_all [OF keeps_lock_status_release [OF k] rs u3]
    have r3: "\<forall>ty\<in>set L. lock_status (ctx (snd w)) ty \<longrightarrow> ty \<in> call_type ` set rel"
      unfolding Lw rel_def .
    from c have "call_type c \<in> set (map call_type acq)" by simp
    with a(4) have "call_type c \<in> set L"
      using list_emb_set [of "(=)" "map call_type acq" L "call_type c"] by auto
    moreover from fl c(1) have "lock_status (ctx (snd w)) (call_type c)" by simp
    ultimately show "ty \<in> call_type ` set rel" using r3 c(2) by simp
  qed
  have "calls s' = calls s @ acq @ rel"
    using s' r1 a(1) ct by simp
  then have nc: "new_calls s s' = acq @ rel" by (simp add: new_calls_def)
  have ak: "list_all (\<lambda>c. call_kind c = lt) acq" using a(2) by (simp add: list_all_iff)
  have re: "r = (if acq = [] then 0 else call_ret (last acq))" using a(3) rw by simp
  have er: "r = 0 \<longrightarrow> storage_error s' = Some timeout_error" using s' by simp
  from tok ib er nc ak r2 re sub show ?thesis
    by (intro conjI exI [of _ acq] exI [of _ rel]) simp_all
qed


lemma table_backends_release_succeeds:
  "(\<And>ty. 0 < tbl ty F_UNLCK) \<Longrightarrow> release_succeeds (table_backends tbl)"
  by (simp add: release_succeeds_def table_backends_def)

lemma three_lock_settings:
  "mbox_init_lock_settings \<lparr>HAVE_FLOCK = True, HAVE_LOCKF = False\<rparr>
     \<lparr>MBOX_READ_LOCKS = None,
      MBOX_WRITE_LOCKS = Some [''fcntl'', ''flock'', ''dotlock''],
      MBOX_LOCK_TIMEOUT = None, MBOX_DOTLOCK_CHANGE_TIMEOUT = None\<rparr> =
   Inr (default_settings\<lparr>write_locks := [MBOX_LOCK_FCNTL, MBOX_LOCK_FLOCK, MBOX_LOCK_DOTLOCK]\<rparr>)"
proof -
  have "mbox_read_lock_methods \<lparr>HAVE_FLOCK = True, HAVE_LOCKF = False\<rparr> [''fcntl'']
          ''MBOX_READ_LOCKS'' = Inr [MBOX_LOCK_FCNTL]"
    and "mbox_read_lock_methods \<lparr>HAVE_FLOCK = True, HAVE_LOCKF = False\<rparr>
          [''fcntl'', ''flock'', ''dotlock''] ''MBOX_WRITE_LOCKS'' =
          Inr [MBOX_LOCK_FCNTL, MBOX_LOCK_FLOCK, MBOX_LOCK_DOTLOCK]"
    by (simp_all add: mbox_read_lock_methods_Inr valid_methods_def lock_data_def
          strcasecmp_eq_def ascii_tolower_def)
  then show ?thesis
    by (simp add: mbox_init_lock_settings_def read_lock_words_def write_lock_words_def
          DEFAULT_READ_LOCK_METHODS_def default_settings_def)
qed

text \<open>
  Claim C7. The unwinding of a failed acquisition is the release walk of
  \<^verbatim>\<open>mbox_unlock_files\<close>, and that walk ends at the first release request that does not
  succeed. With the write list \<^verbatim>\<open>fcntl flock dotlock\<close> (accepted by
  \<^verbatim>\<open>mbox_init_lock_settings\<close> on a build with flock), let an exclusive request on an
  unlocked handle acquire fcntl and flock and time out on the dotlock, and let the release
  of fcntl fail. Then \<^verbatim>\<open>mbox_lock\<close> returns 0 without a token, with the timeout error and
  the handle at \<^verbatim>\<open>F_UNLCK\<close>, and the only release request is the one to fcntl: flock,
  acquired during the attempt, is not asked to release.
\<close>

theorem failed_release_ends_unwinding:
  "mbox_init_lock_settings \<lparr>HAVE_FLOCK = True, HAVE_LOCKF = False\<rparr>
     \<lparr>MBOX_READ_LOCKS = None,
      MBOX_WRITE_LOCKS = Some [''fcntl'', ''flock'', ''dotlock''],
      MBOX_LOCK_TIMEOUT = None, MBOX_DOTLOCK_CHANGE_TIMEOUT = None\<rparr> =
     Inr (default_settings\<lparr>write_locks := [MBOX_LOCK_FCNTL, MBOX_LOCK_FLOCK, MBOX_LOCK_DOTLOCK]\<rparr>) \<and>
   map_sum id (\<lambda>(r, tok, s'). (r, tok, mbox_lock_type (ibox s'), storage_error s', calls s'))
     (mbox_lock
        (table_backends (\<lambda>ty lt. if lt = F_UNLCK then (if ty = MBOX_LOCK_FCNTL then - 1 else 1)
                                  else if ty = MBOX_LOCK_DOTLOCK then 0 else 1))
        (default_settings\<lparr>write_locks := [MBOX_LOCK_FCNTL, MBOX_LOCK_FLOCK, MBOX_LOCK_DOTLOCK]\<rparr>)
        F_WRLCK (fresh_mailbox 0 ())) =
     Inr (0, None, F_UNLCK, Some timeout_error,
          [Call MBOX_LOCK_FCNTL F_WRLCK 1600 1, Call MBOX_LOCK_FLOCK F_WRLCK 1600 1,
           Call MBOX_LOCK_DOTLOCK F_WRLCK 1600 0, Call MBOX_LOCK_FCNTL F_UNLCK 0 (- 1)])"
proof
  show "mbox_init_lock_settings \<lparr>HAVE_FLOCK = True, HAVE_LOCKF = False\<rparr>
     \<lparr>MBOX_READ_LOCKS = None,
      MBOX_WRITE_LOCKS = Some [''fcntl'', ''flock'', ''dotlock''],
      MBOX_LOCK_TIMEOUT = None, MBOX_DOTLOCK_CHANGE_TIMEOUT = None\<rparr> =
     Inr (default_settings\<lparr>write_locks := [MBOX_LOCK_FCNTL, MBOX_LOCK_FLOCK, MBOX_LOCK_DOTLOCK]\<rparr>)"
    by (rule three_lock_settings)
next
  show "map_sum id (\<lambda>(r, tok, s'). (r, tok, mbox_lock_type (ibox s'), storage_error s', calls s'))
     (mbox_lock
        (table_backends (\<lambda>ty lt. if lt = F_UNLCK then (if ty = MBOX_LOCK_FCNTL then - 1 else 1)
                                  else if ty = MBOX_LOCK_DOTLOCK then 0 else 1))
        (default_settings\<lparr>write_locks := [MBOX_LOCK_FCNTL, MBOX_LOCK_FLOCK, MBOX_LOCK_DOTLOCK]\<rparr>)
        F_WRLCK (fresh_mailbox 0 ())) =
     Inr (0, None, F_UNLCK, Some timeout_error,
          [Call MBOX_LOCK_FCNTL F_WRLCK 1600 1, Call MBOX_LOCK_FLOCK F_WRLCK 1600 1,
           Call MBOX_LOCK_DOTLOCK F_WRLCK 1600 0, Call MBOX_LOCK_FCNTL F_UNLCK 0 (- 1)])"
    by (simp add: run_simps)
qed

section \<open>Properties of the dotlock callback\<close>


lemma next_lock_index_bound:
  "n \<le> 4 \<Longrightarrow> lock_status_of ty \<Longrightarrow> lock_ordinal ty < n \<Longrightarrow>
     lock_ordinal ty < next_lock_index lock_status_of n"
proof (induction n)
  case 0
  then show ?case by simp
next
  case (Suc n)
  show ?case
  proof (cases "lock_status_of (lock_types_by_ordinal ! n)")
    case True
    with Suc.prems show ?thesis by simp
  next
    case False
    have "lock_ordinal ty \<noteq> n"
    proof
      assume "lock_ordinal ty = n"
      then have "lock_types_by_ordinal ! n = ty"
        by (cases ty) (auto simp: lock_types_by_ordinal_def)
      with False Suc.prems(2) show False by simp
    qed
    with Suc.prems have "lock_ordinal ty < n" by simp
    with Suc.IH Suc.prems False show ?thesis by simp
  qed
qed

lemma next_lock_index_held:
  "(\<forall>ty. lock_status_of ty \<longrightarrow> lock_ordinal ty < next_lock_index lock_status_of MBOX_LOCK_COUNT)"
proof (intro allI impI)
  fix ty assume "lock_status_of ty"
  moreover have "lock_ordinal ty < 4" by (cases ty) simp_all
  ultimately show "lock_ordinal ty < next_lock_index lock_status_of MBOX_LOCK_COUNT"
    unfolding MBOX_LOCK_COUNT_def by (intro next_lock_index_bound) simp_all
qed

lemma next_lock_index_least:
  "next_lock_index lock_status_of n = 0 \<or>
     (\<exists>ty. lock_status_of ty \<and> next_lock_index lock_status_of n = Suc (lock_ordinal ty))"
  if "n \<le> 4"
  using that
proof (induction n)
  case 0
  then show ?case by simp
next
  case (Suc n)
  show ?case
  proof (cases "lock_status_of (lock_types_by_ordinal ! n)")
    case True
    from Suc.prems have "n = 0 \<or> n = 1 \<or> n = 2 \<or> n = 3" by arith
    then have "lock_ordinal (lock_types_by_ordinal ! n) = n"
      by (auto simp: lock_types_by_ordinal_def)
    with True show ?thesis by auto
  next
    case False
    with Suc show ?thesis by simp
  qed
qed


lemma dotlock_callback_notify_facts:
  "fst (dotlock_callback_notify cl secs_left stale s) = True"
  "calls (snd (dotlock_callback_notify cl secs_left stale s)) = calls s"
  "dotlock_last_stale (ctx (snd (dotlock_callback_notify cl secs_left stale s))) =
     (if stale then 1 else 0)"
  by (simp_all add: dotlock_callback_notify_def)









text \<open>
  Outside the amended claim: a probe that succeeded leaves \<^verbatim>\<open>F_UNLCK\<close> in the context
  (its release walk stores it). A later stale call that finds "not stale" recorded then
  walks a release, which asks no backend and returns 0, and the callback returns FALSE
  although every probed backend is free.
\<close>

lemma dotlock_callback_after_successful_probe:
  "map_sum id (\<lambda>(b, s'). (b, calls s'))
     (dotlock_callback (table_backends (\<lambda>ty lt. 1)) default_settings 10 True
        ((dotlock_wait_state 0)\<lparr>ctx := (ctx (dotlock_wait_state 0))\<lparr>lock_type := F_UNLCK\<rparr>\<rparr>)) =
   Inr (False, [])"
  by (simp add: dotlock_callback_def dotlock_callback_notify_def dotlock_wait_state_def
        MBOX_LOCK_COUNT_def lock_types_by_ordinal_def numeral_eq_Suc run_simps)

lemma dotlock_callback_leaves_release_kind:
  "\<exists>s2. dotlock_callback (table_backends (\<lambda>ty lt. 1)) default_settings 10 True
           (dotlock_wait_state 0) = Inr (True, s2) \<and> lock_type (ctx s2) = F_UNLCK"
  by (simp add: dotlock_callback_def dotlock_callback_notify_def dotlock_wait_state_def
        MBOX_LOCK_COUNT_def lock_types_by_ordinal_def numeral_eq_Suc run_simps)

section \<open>Backends called without a deadline\<close>

lemma mbox_lock_flock_contended:
  assumes "lt \<noteq> F_UNLCK" and "mbox_file_open_latest sy lt b = (r, b1)" and "0 \<le> r"
    and "sys_flock sy (mbox_fd (snd (snd b1))) (if lt = F_WRLCK then LOCK_EX else LOCK_SH)
           (outside (snd (snd b1))) = (Some (EWOULDBLOCK sy), x1)"
  shows "mbox_lock_flock sy lt 0 b = Some (0, set_outside x1 b1)"
proof -
  have op: "(if lt = F_WRLCK then LOCK_EX else if lt = F_RDLCK then LOCK_SH else LOCK_UN) =
              (if lt = F_WRLCK then LOCK_EX else LOCK_SH)"
    using assms(1) by (cases lt) simp_all
  have "mbox_lock_flock sy lt 0 b =
          mbox_lock_flock_loop sy (if lt = F_WRLCK then LOCK_EX else LOCK_SH) 0 b1"
    using assms(1,2,3) by (simp add: mbox_lock_flock_def op)
  also have "\<dots> = Some (0, set_outside x1 b1)"
    by (subst mbox_lock_flock_loop.simps) (simp add: assms(4))
  finally show ?thesis .
qed

lemma mbox_lock_lockf_contended:
  assumes "lt \<noteq> F_UNLCK" and "mbox_file_open_latest sy lt b = (r, b1)" and "0 \<le> r"
    and "sys_lockf sy (mbox_fd (snd (snd b1))) F_TLOCK (outside (snd (snd b1))) =
           (Some (EAGAIN sy), x1)"
  shows "mbox_lock_lockf sy lt 0 b = Some (0, set_outside x1 b1)"
proof -
  have "mbox_lock_lockf sy lt 0 b = mbox_lock_lockf_loop sy F_TLOCK 0 b1"
    using assms(1,2,3) by (simp add: mbox_lock_lockf_def)
  also have "\<dots> = Some (0, set_outside x1 b1)"
    by (subst mbox_lock_lockf_loop.simps) (simp add: assms(4))
  finally show ?thesis .
qed

lemma mbox_lock_fcntl_single_attempt:
  assumes "lt \<noteq> F_UNLCK" and "mbox_file_open_latest sy lt b = (r, b1)" and "0 \<le> r"
    and "sys_fcntl sy (mbox_fd (snd (snd b1))) F_SETLK lt (outside (snd (snd b1))) =
           (Some errno, x1)"
    and "errno \<noteq> EINTR sy"
  shows "mbox_lock_fcntl sy lt 0 b =
           Some (- 1, set_outside (sys_alarm sy 0 x1)
                        (if errno \<noteq> EAGAIN sy \<and> errno \<noteq> EACCES sy
                         then mbox_set_syscall_error ''fcntl()'' b1 else b1))"
proof -
  have "mbox_lock_fcntl sy lt 0 b = mbox_lock_fcntl_loop sy F_SETLK lt 0 b1"
    using assms(1,2,3) by (simp add: mbox_lock_fcntl_def)
  also have "\<dots> = Some (- 1, set_outside (sys_alarm sy 0 x1)
                        (if errno \<noteq> EAGAIN sy \<and> errno \<noteq> EACCES sy
                         then mbox_set_syscall_error ''fcntl()'' b1 else b1))"
    by (subst mbox_lock_fcntl_loop.simps) (simp add: assms(4,5))
  finally show ?thesis .
qed

lemma outside_set_outside [simp]: "outside (snd (snd (set_outside x b))) = x"
  by (simp add: set_outside_def split: prod.splits)

lemma outside_set_error [simp]:
  "outside (snd (snd (mbox_set_syscall_error n b))) = outside (snd (snd b))"
  by (simp add: mbox_set_syscall_error_def split: prod.splits)

lemma set_outside_set_error:
  "outside (snd (snd (set_outside x (if c then mbox_set_syscall_error n b else b)))) = x"
  by simp

lemma mbox_lock_dotlock_ignores_wait:
  "mbox_lock_dotlock sy cfg cb lt max_wait_time b = mbox_lock_dotlock sy cfg cb lt 0 b"
  by (simp add: mbox_lock_dotlock_def)


text \<open>
  Claim C3, as amended. Called to acquire with \<^verbatim>\<open>max_wait_time\<close> 0, the flock and lockf
  backends return 0 right after the first lock call when it fails because the lock is held
  (\<^verbatim>\<open>EWOULDBLOCK\<close> for flock, \<^verbatim>\<open>EAGAIN\<close> for lockf): no sleep, no second call. The fcntl
  backend then uses the non-waiting command \<^verbatim>\<open>F_SETLK\<close> and returns after that one call
  unless it was interrupted. The dotlock backend does not look at \<^verbatim>\<open>max_wait_time\<close>: it
  does the same with 0 as with any other value, waiting up to the configured timeout.
\<close>

theorem acquire_without_deadline:
  "(lt \<noteq> F_UNLCK \<and> mbox_file_open_latest sy lt b = (r, b1) \<and> 0 \<le> r \<and>
    sys_flock sy (mbox_fd (snd (snd b1))) (if lt = F_WRLCK then LOCK_EX else LOCK_SH)
      (outside (snd (snd b1))) = (Some (EWOULDBLOCK sy), x1)
      \<longrightarrow> mbox_lock_flock sy lt 0 b = Some (0, set_outside x1 b1)) \<and>
   (lt \<noteq> F_UNLCK \<and> mbox_file_open_latest sy lt b = (r, b1) \<and> 0 \<le> r \<and>
    sys_lockf sy (mbox_fd (snd (snd b1))) F_TLOCK (outside (snd (snd b1))) = (Some (EAGAIN sy), x1)
      \<longrightarrow> mbox_lock_lockf sy lt 0 b = Some (0, set_outside x1 b1)) \<and>
   (lt \<noteq> F_UNLCK \<and> mbox_file_open_latest sy lt b = (r, b1) \<and> 0 \<le> r \<and>
    sys_fcntl sy (mbox_fd (snd (snd b1))) F_SETLK lt (outside (snd (snd b1))) = (Some errno, x1) \<and>
    errno \<noteq> EINTR sy
      \<longrightarrow> (\<exists>r' b'. mbox_lock_fcntl sy lt 0 b = Some (r', b') \<and>
                   outside (snd (snd b')) = sys_alarm sy 0 x1)) \<and>
   mbox_lock_dotlock sy cfg cb lt max_wait_time b = mbox_lock_dotlock sy cfg cb lt 0 b"
proof (intro conjI impI; (elim conjE)?)
  assume "lt \<noteq> F_UNLCK" "mbox_file_open_latest sy lt b = (r, b1)" "0 \<le> r"
    "sys_flock sy (mbox_fd (snd (snd b1))) (if lt = F_WRLCK then LOCK_EX else LOCK_SH)
      (outside (snd (snd b1))) = (Some (EWOULDBLOCK sy), x1)"
  then show "mbox_lock_flock sy lt 0 b = Some (0, set_outside x1 b1)"
    by (rule mbox_lock_flock_contended)
next
  assume "lt \<noteq> F_UNLCK" "mbox_file_open_latest sy lt b = (r, b1)" "0 \<le> r"
    "sys_lockf sy (mbox_fd (snd (snd b1))) F_TLOCK (outside (snd (snd b1))) = (Some (EAGAIN sy), x1)"
  then show "mbox_lock_lockf sy lt 0 b = Some (0, set_outside x1 b1)"
    by (rule mbox_lock_lockf_contended)
next
  assume "lt \<noteq> F_UNLCK" "mbox_file_open_latest sy lt b = (r, b1)" "0 \<le> r"
    "sys_fcntl sy (mbox_fd (snd (snd b1))) F_SETLK lt (outside (snd (snd b1))) = (Some errno, x1)"
    "errno \<noteq> EINTR sy"
  then have "mbox_lock_fcntl sy lt 0 b =
           Some (- 1, set_outside (sys_alarm sy 0 x1)
                        (if errno \<noteq> EAGAIN sy \<and> errno \<noteq> EACCES sy
                         then mbox_set_syscall_error ''fcntl()'' b1 else b1))"
    by (rule mbox_lock_fcntl_single_attempt)
  moreover have "outside (snd (snd (set_outside (sys_alarm sy 0 x1)
                        (if errno \<noteq> EAGAIN sy \<and> errno \<noteq> EACCES sy
                         then mbox_set_syscall_error ''fcntl()'' b1 else b1)))) = sys_alarm sy 0 x1"
    by (rule set_outside_set_error)
  ultimately show "\<exists>r' b'. mbox_lock_fcntl sy lt 0 b = Some (r', b') \<and>
                   outside (snd (snd b')) = sys_alarm sy 0 x1"
    by (intro exI conjI)
next
  show "mbox_lock_dotlock sy cfg cb lt max_wait_time b = mbox_lock_dotlock sy cfg cb lt 0 b"
    by (rule mbox_lock_dotlock_ignores_wait)
qed

lemmas backend_simps =
  contended_system_def open_mailbox_state_def mbox_file_open_latest_def zero_ctx_def
  set_outside_def mbox_set_syscall_error_def

theorem acquire_without_deadline_witness:
  "mbox_lock_flock contended_system F_WRLCK 0 open_mailbox_state =
     Some (0, (zero_ctx\<lparr>checked_file := True\<rparr>, None,
               \<lparr>mbox_fd = 3, mbox_dotlock_ino = 0, outside = 1000\<rparr>)) \<and>
   mbox_lock_lockf contended_system F_RDLCK 0 open_mailbox_state =
     Some (0, (zero_ctx\<lparr>checked_file := True\<rparr>, None,
               \<lparr>mbox_fd = 3, mbox_dotlock_ino = 0, outside = 1000\<rparr>)) \<and>
   mbox_lock_dotlock contended_system default_settings () F_WRLCK 1600 open_mailbox_state =
     mbox_lock_dotlock contended_system default_settings () F_WRLCK 0 open_mailbox_state"
proof -
  let ?b1 = "(zero_ctx\<lparr>checked_file := True\<rparr>, None,
               \<lparr>mbox_fd = 3, mbox_dotlock_ino = 0, outside = (1000 :: int)\<rparr>)"
  have o: "mbox_file_open_latest contended_system lt open_mailbox_state = (0, ?b1)"
    if "lt \<noteq> F_UNLCK" for lt
    using that by (simp add: backend_simps)
  have f: "sys_flock contended_system (mbox_fd (snd (snd ?b1)))
             (if F_WRLCK = F_WRLCK then LOCK_EX else LOCK_SH) (outside (snd (snd ?b1))) =
           (Some (EWOULDBLOCK contended_system), 1000)"
    by (simp add: contended_system_def)
  have l: "sys_lockf contended_system (mbox_fd (snd (snd ?b1))) F_TLOCK (outside (snd (snd ?b1))) =
           (Some (EAGAIN contended_system), 1000)"
    by (simp add: contended_system_def)
  note t = acquire_without_deadline [where sy = contended_system and b = open_mailbox_state
             and r = 0 and ?b1.0 = ?b1 and ?x1.0 = 1000 and cfg = default_settings and cb = "()"
             and max_wait_time = 1600]
  from t [where lt = F_WRLCK] o [of F_WRLCK] f
  have 1: "mbox_lock_flock contended_system F_WRLCK 0 open_mailbox_state =
             Some (0, set_outside 1000 ?b1)"
    by simp
  from t [where lt = F_RDLCK] o [of F_RDLCK] l
  have 2: "mbox_lock_lockf contended_system F_RDLCK 0 open_mailbox_state =
             Some (0, set_outside 1000 ?b1)"
    by simp
  from t [where lt = F_WRLCK]
  have 3: "mbox_lock_dotlock contended_system default_settings () F_WRLCK 1600 open_mailbox_state =
     mbox_lock_dotlock contended_system default_settings () F_WRLCK 0 open_mailbox_state"
    by blast
  from 1 2 3 show ?thesis by (simp add: set_outside_def)
qed

text \<open>
  The claim as stated fails for two backends. With the lock held by another process and
  \<^verbatim>\<open>max_wait_time\<close> 0, the fcntl backend returns -1, not 0; and the dotlock backend returns
  0 only after the configured 600 seconds have passed (the clock goes from 1000 to 1600).
\<close>

theorem fcntl_and_dotlock_without_deadline:
  "mbox_lock_fcntl contended_system F_WRLCK 0 open_mailbox_state =
     Some (- 1, (zero_ctx\<lparr>checked_file := True\<rparr>, None,
                 \<lparr>mbox_fd = 3, mbox_dotlock_ino = 0, outside = 1000\<rparr>)) \<and>
   mbox_lock_dotlock contended_system default_settings () F_WRLCK 0 open_mailbox_state =
     (0, (zero_ctx\<lparr>dotlock_last_stale := - 1\<rparr>, Some timeout_error,
          \<lparr>mbox_fd = 3, mbox_dotlock_ino = 0, outside = 1600\<rparr>))"
proof
  have "mbox_lock_fcntl contended_system F_WRLCK 0 open_mailbox_state =
          mbox_lock_fcntl_loop contended_system F_SETLK F_WRLCK 0
            (zero_ctx\<lparr>checked_file := True\<rparr>, None,
             \<lparr>mbox_fd = 3, mbox_dotlock_ino = 0, outside = 1000\<rparr>)"
    by (simp add: mbox_lock_fcntl_def backend_simps)
  also have "\<dots> = Some (- 1, (zero_ctx\<lparr>checked_file := True\<rparr>, None,
                 \<lparr>mbox_fd = 3, mbox_dotlock_ino = 0, outside = 1000\<rparr>))"
    by (subst mbox_lock_fcntl_loop.simps) (simp add: backend_simps)
  finally show "mbox_lock_fcntl contended_system F_WRLCK 0 open_mailbox_state =
     Some (- 1, (zero_ctx\<lparr>checked_file := True\<rparr>, None,
                 \<lparr>mbox_fd = 3, mbox_dotlock_ino = 0, outside = 1000\<rparr>))" .
next
  show "mbox_lock_dotlock contended_system default_settings () F_WRLCK 0 open_mailbox_state =
     (0, (zero_ctx\<lparr>dotlock_last_stale := - 1\<rparr>, Some timeout_error,
          \<lparr>mbox_fd = 3, mbox_dotlock_ino = 0, outside = 1600\<rparr>))"
    by (simp add: mbox_lock_dotlock_def backend_simps default_settings_def
          DEFAULT_LOCK_TIMEOUT_def)
qed

section \<open>The backends and the status table\<close>

text \<open>
  None of the four backends writes \<^verbatim>\<open>lock_status[]\<close> on a release request; the three
  system-call backends do not write it on any request. An acquiring dotlock request hands
  the lock context to the callback, which does.
\<close>

lemma fst_set_outside: "fst (set_outside x b) = fst b"
  by (simp add: set_outside_def case_prod_beta)

lemma fst_mbox_set_syscall_error: "fst (mbox_set_syscall_error n b) = fst b"
  by (simp add: mbox_set_syscall_error_def case_prod_beta)

lemma mbox_file_open_latest_lock_status:
  "lock_status (fst (snd (mbox_file_open_latest sy lt b))) = lock_status (fst b)"
  by (simp add: mbox_file_open_latest_def case_prod_beta fst_mbox_set_syscall_error
      split: option.splits sum.splits)

lemma mbox_lock_flock_loop_ctx:
  assumes "mbox_lock_flock_loop sy op mw b = Some y"
  shows "fst (snd y) = fst b"
  using assms
proof (rule mbox_lock_flock_loop.raw_induct [rotated 1], goal_cases)
  case (1 loop sy op mw b y)
  from 1(2) show ?case
    by (auto simp: fst_set_outside fst_mbox_set_syscall_error
        split: prod.splits option.splits if_splits dest!: 1(1))
qed

lemma mbox_lock_lockf_loop_ctx:
  assumes "mbox_lock_lockf_loop sy cmd mw b = Some y"
  shows "fst (snd y) = fst b"
  using assms
proof (rule mbox_lock_lockf_loop.raw_induct [rotated 1], goal_cases)
  case (1 loop sy cmd mw b y)
  from 1(2) show ?case
    by (auto simp: fst_set_outside fst_mbox_set_syscall_error
        split: prod.splits option.splits if_splits dest!: 1(1))
qed

lemma mbox_lock_fcntl_loop_ctx:
  assumes "mbox_lock_fcntl_loop sy wt lt mw b = Some y"
  shows "fst (snd y) = fst b"
  using assms
proof (rule mbox_lock_fcntl_loop.raw_induct [rotated 1], goal_cases)
  case (1 loop sy wt lt mw b y)
  from 1(2) show ?case
    by (auto simp: fst_set_outside fst_mbox_set_syscall_error
        split: prod.splits option.splits if_splits dest!: 1(1))
qed

lemma mbox_lock_flock_lock_status:
  assumes "mbox_lock_flock sy lt mw b = Some (r, b')"
  shows "lock_status (fst b') = lock_status (fst b)"
proof -
  obtain r1 b1 where o: "mbox_file_open_latest sy lt b = (r1, b1)" by (cases "mbox_file_open_latest sy lt b")
  have l: "lock_status (fst b1) = lock_status (fst b)"
    using mbox_file_open_latest_lock_status [of sy lt b] o by simp
  from assms o l show ?thesis
    by (auto simp: mbox_lock_flock_def split: if_splits dest!: mbox_lock_flock_loop_ctx)
qed

lemma mbox_lock_lockf_lock_status:
  assumes "mbox_lock_lockf sy lt mw b = Some (r, b')"
  shows "lock_status (fst b') = lock_status (fst b)"
proof -
  obtain r1 b1 where o: "mbox_file_open_latest sy lt b = (r1, b1)" by (cases "mbox_file_open_latest sy lt b")
  have l: "lock_status (fst b1) = lock_status (fst b)"
    using mbox_file_open_latest_lock_status [of sy lt b] o by simp
  from assms o l show ?thesis
    by (auto simp: mbox_lock_lockf_def split: if_splits dest!: mbox_lock_lockf_loop_ctx)
qed

lemma mbox_lock_fcntl_lock_status:
  assumes "mbox_lock_fcntl sy lt mw b = Some (r, b')"
  shows "lock_status (fst b') = lock_status (fst b)"
proof -
  obtain r1 b1 where o: "mbox_file_open_latest sy lt b = (r1, b1)" by (cases "mbox_file_open_latest sy lt b")
  have l: "lock_status (fst b1) = lock_status (fst b)"
    using mbox_file_open_latest_lock_status [of sy lt b] o by simp
  from assms o l show ?thesis
    by (auto simp: mbox_lock_fcntl_def fst_set_outside split: if_splits
        dest!: mbox_lock_fcntl_loop_ctx)
qed

lemma mbox_lock_dotlock_release_lock_status:
  "lock_status (fst (snd (mbox_lock_dotlock sy cfg cb F_UNLCK mw b))) = lock_status (fst b)"
  by (simp add: mbox_lock_dotlock_def case_prod_beta)

end
